(* ===== verification/Prelude.thy ===== *)
theory Prelude
  imports Main "HOL-Library.Multiset" "HOL-Library.Sublist"
begin

text \<open>
  Shared vocabulary of the development: instants and paths, the error values
  that the Python exceptions of the site builder become, the bind of the error
  sum (an exception propagates and aborts the rest of the build), the
  \<open>for\<close>-loop that stops at the first exception, and the generic list lemmas the
  component theories share.
\<close>

section \<open>Names of the model's types\<close>

text \<open>
  A Python \<open>datetime\<close> (always timezone-aware UTC in the builder) is an instant,
  counted in microseconds since the epoch; a \<open>timedelta\<close> is a difference of
  instants. A \<open>pathlib.Path\<close> is the list of its components below the root.
\<close>

type_synonym instant = int
type_synonym delta = int
type_synonym path = "string list"

section \<open>Errors of the build\<close>

text \<open>
  The exceptions a build can raise: the \<open>OSError\<close> subclasses of
  \<open>Path.mkdir\<close>, \<open>open\<close> and \<open>shutil.copyfile\<close>, and Jinja's
  \<open>TemplateNotFound\<close>, and the \<open>ValueError\<close> of \<open>PurePath.relative_to\<close>. None of
  them is caught anywhere in the builder.
\<close>

datatype error =
    FileNotFoundError
  | FileExistsError
  | NotADirectoryError
  | IsADirectoryError
  | SameFileError
  | TemplateNotFound string
  | ValueError

definition bindE :: "'e + 'a \<Rightarrow> ('a \<Rightarrow> 'e + 'b) \<Rightarrow> 'e + 'b" where
  "bindE m f = (case m of Inl e \<Rightarrow> Inl e | Inr a \<Rightarrow> f a)"

text \<open>A Python \<open>for\<close> loop whose body may raise: the first exception ends it.\<close>

primrec foreachE :: "('a \<Rightarrow> 's \<Rightarrow> 'e + 's) \<Rightarrow> 'a list \<Rightarrow> 's \<Rightarrow> 'e + 's" where
  "foreachE f [] s = Inr s"
| "foreachE f (x # xs) s = bindE (f x s) (foreachE f xs)"

named_theorems step_simps \<open>equations of the builder's steps, for evaluation\<close>

section \<open>Lemmas on the error bind and the loop\<close>

lemma bindE_Inl [simp]: "bindE (Inl e) f = Inl e"
  by (simp add: bindE_def)

lemma bindE_Inr [simp]: "bindE (Inr a) f = f a"
  by (simp add: bindE_def)

lemma bindE_assoc [simp]: "bindE (bindE m f) g = bindE m (\<lambda>a. bindE (f a) g)"
  by (cases m) auto

lemma bindE_eq_Inr_iff: "bindE m f = Inr b \<longleftrightarrow> (\<exists>a. m = Inr a \<and> f a = Inr b)"
  by (cases m) auto

lemma bindE_eq_Inl_iff:
  "bindE m f = Inl e \<longleftrightarrow> m = Inl e \<or> (\<exists>a. m = Inr a \<and> f a = Inl e)"
  by (cases m) auto

lemma foreachE_append:
  "foreachE f (xs @ ys) s = bindE (foreachE f xs s) (foreachE f ys)"
  by (induction xs arbitrary: s) (auto simp: bindE_def split: sum.split)

lemma foreachE_invariant:
  assumes "foreachE f xs s = Inr s'"
    and "P s"
    and "\<And>x t t'. x \<in> set xs \<Longrightarrow> P t \<Longrightarrow> f x t = Inr t' \<Longrightarrow> P t'"
  shows "P s'"
  using assms
proof (induction xs arbitrary: s)
  case Nil
  then show ?case by simp
next
  case (Cons x xs)
  from Cons.prems(1) obtain t where t: "f x s = Inr t" and rest: "foreachE f xs t = Inr s'"
    by (auto simp: bindE_eq_Inr_iff)
  from Cons.prems(3) [OF _ Cons.prems(2) t] have "P t" by simp
  with rest Cons.prems(3) show ?case by (intro Cons.IH) auto
qed

text \<open>A loop whose body always succeeds from states satisfying \<open>P\<close>, and keeps
  \<open>P\<close>, succeeds.\<close>

lemma foreachE_total:
  assumes "P s"
    and "\<And>x t. x \<in> set xs \<Longrightarrow> P t \<Longrightarrow> \<exists>t'. f x t = Inr t' \<and> P t'"
  shows "\<exists>s'. foreachE f xs s = Inr s' \<and> P s'"
  using assms
proof (induction xs arbitrary: s)
  case Nil
  then show ?case by simp
next
  case (Cons x xs)
  from Cons.prems obtain t where "f x s = Inr t" and "P t" by fastforce
  with Cons.IH [of t] Cons.prems(2) show ?case by auto
qed

text \<open>A loop that raises stopped in the body of one of its elements.\<close>

lemma foreachE_Inl:
  assumes "foreachE f xs s = Inl e"
  shows "\<exists>ys x zs t. xs = ys @ x # zs \<and> foreachE f ys s = Inr t \<and> f x t = Inl e"
  using assms
proof (induction xs arbitrary: s)
  case Nil
  then show ?case by simp
next
  case (Cons x xs)
  show ?case
  proof (cases "f x s")
    case (Inl e')
    with Cons.prems have "f x s = Inl e" by simp
    then show ?thesis by (intro exI [of _ "[]"]) auto
  next
    case (Inr t)
    with Cons.prems have "foreachE f xs t = Inl e" by simp
    from Cons.IH [OF this] obtain ys y zs u where
      "xs = ys @ y # zs" "foreachE f ys t = Inr u" "f y u = Inl e" by blast
    with Inr show ?thesis by (intro exI [of _ "x # ys"]) auto
  qed
qed

section \<open>Splitting a list at a predicate that stays false\<close>

text \<open>When \<open>P\<close> never becomes true again once false along the list, the prefix
  \<open>takeWhile\<close> keeps and the suffix \<open>dropWhile\<close> leaves are the two filters.\<close>

lemma takeWhile_dropWhile_filter:
  assumes "sorted_wrt (\<lambda>x y. \<not> P x \<longrightarrow> \<not> P y) xs"
  shows "takeWhile P xs = filter P xs \<and> dropWhile P xs = filter (\<lambda>x. \<not> P x) xs"
  using assms
proof (induction xs)
  case Nil
  then show ?case by simp
next
  case (Cons x xs)
  show ?case
  proof (cases "P x")
    case True
    with Cons show ?thesis by simp
  next
    case False
    with Cons.prems have "\<forall>y \<in> set xs. \<not> P y" by simp
    with False show ?thesis by (simp add: filter_empty_conv)
  qed
qed

lemma foreachE_trace:
  assumes "foreachE f xs s = Inr s'"
    and "\<And>x t t'. x \<in> set xs \<Longrightarrow> f x t = Inr t' \<Longrightarrow> obs t' = obs t @ g x"
  shows "obs s' = obs s @ concat (map g xs)"
  using assms
proof (induction xs arbitrary: s)
  case Nil
  then show ?case by simp
next
  case (Cons x xs)
  from Cons.prems(1) obtain t where "f x s = Inr t" and "foreachE f xs t = Inr s'"
    by (auto simp: bindE_eq_Inr_iff)
  with Cons.IH [of t] Cons.prems(2) show ?case by simp
qed

section \<open>Disjoint subtrees\<close>

lemma parallel_append_neq: "xs \<parallel> ys \<Longrightarrow> xs @ a \<noteq> ys @ b"
  by (metis parallel_def prefix_append prefix_order.eq_refl prefix_same_cases)

lemma not_prefix_append: "\<not> prefix d p \<Longrightarrow> \<not> prefix (d @ x) p"
  using prefix_order.trans [of d "d @ x" p] by auto

lemma parallel_snoc: "a \<noteq> c \<Longrightarrow> d @ [a] \<parallel> d @ [c]"
  by (auto simp: parallel_def)

lemma distinct_map_snoc: "distinct (map (\<lambda>x. d @ [f x]) xs) = distinct (map f xs)"
  by (induction xs) auto

section \<open>Loops as functions\<close>

lemma bindE_Inr_right [simp]: "bindE m Inr = m"
  by (simp add: bindE_def split: sum.split)

lemma foreachE_Nil_fun [simp]: "foreachE f [] = Inr"
  by (rule ext) simp

lemma foreachE_single [simp]: "foreachE f [x] = f x"
  by (rule ext) simp

lemma foreachE_concat:
  "foreachE f (concat (map g xs)) = foreachE (\<lambda>x. foreachE f (g x)) xs"
proof (induction xs)
  case Nil
  then show ?case by simp
next
  case (Cons a xs)
  then show ?case by (intro ext) (simp add: foreachE_append)
qed

section \<open>Prefixes\<close>

lemma butlast_neq: "q \<noteq> [] \<Longrightarrow> butlast q \<noteq> q"
  by (induction q) auto

lemma parallel_prefixes: "a \<parallel> c \<Longrightarrow> prefix a p \<Longrightarrow> prefix c q \<Longrightarrow> \<not> prefix p q"
proof
  assume par: "a \<parallel> c" and ap: "prefix a p" and cq: "prefix c q" and pq: "prefix p q"
  from ap pq have "prefix a q" by (rule prefix_order.trans)
  then have "prefix a c \<or> prefix c a" using cq by (rule prefix_same_cases)
  with par show False by (auto dest: parallelD1 parallelD2)
qed

end
