(* ===== verification/FileSystem.thy ===== *)
theory FileSystem
  imports Prelude
begin

text \<open>
  The world the builder acts on: a file system (a map from resolved paths to
  directories and files), standard output, and the wall clock. On it, the
  library calls the builder makes: \<open>pathlib\<close>'s \<open>/\<close> join, the OS path walk,
  \<open>Path.mkdir(exist_ok=True)\<close>, \<open>open(path, "w").write\<close>,
  \<open>shutil.copyfile\<close> and \<open>print\<close>. They are library code and modelled from
  their documented POSIX behaviour (no symbolic links, no permissions); the
  invariant \<open>wf_fs\<close> (the root is a directory and the parent of every entry is a
  directory) is kept by every operation.
\<close>

datatype node = Dir | File string

type_synonym filesystem = "path \<rightharpoonup> node"

record world =
  fs :: filesystem
  stdout :: "string list"
  clock :: instant

text \<open>What a call that may raise returns: the world it leaves, or the exception
  together with the world as it was when the exception was raised (nothing is
  rolled back).\<close>

type_synonym outcome = "(error \<times> world) + world"

section \<open>pathlib: joining a string onto a path\<close>

text \<open>
  \<open>PurePosixPath(p) / s\<close> splits \<open>s\<close> at slashes, drops empty and \<open>.\<close> parts,
  keeps \<open>..\<close>, and restarts at the root when \<open>s\<close> is absolute.
\<close>

fun split_slash :: "string \<Rightarrow> string \<Rightarrow> string list" where
  "split_slash cur [] = [cur]"
| "split_slash cur (c # cs) =
     (if c = CHR ''/'' then cur # split_slash [] cs else split_slash (cur @ [c]) cs)"

definition is_dot :: "string \<Rightarrow> bool" where
  "is_dot c \<longleftrightarrow> c = [] \<or> c = ''.''"

definition path_parts :: "string \<Rightarrow> string list" where
  "path_parts s = filter (\<lambda>c. \<not> is_dot c) (split_slash [] s)"

definition pjoin :: "path \<Rightarrow> string \<Rightarrow> path" where
  "pjoin p s = (if take 1 s = ''/'' then [] else p) @ path_parts s"

text \<open>A name that \<open>/\<close> appends as exactly one component.\<close>

definition simple_name :: "string \<Rightarrow> bool" where
  "simple_name s \<longleftrightarrow> s \<noteq> [] \<and> s \<noteq> ''.'' \<and> s \<noteq> ''..'' \<and> CHR ''/'' \<notin> set s"

definition clean_path :: "path \<Rightarrow> bool" where
  "clean_path p \<longleftrightarrow> (\<forall>c \<in> set p. simple_name c)"

section \<open>The OS path walk\<close>

text \<open>
  The kernel resolves every component but the last in the directory reached so
  far: \<open>..\<close> goes up (the root is its own parent), empty and \<open>.\<close> stay, a
  missing entry is \<open>ENOENT\<close>, a plain file is \<open>ENOTDIR\<close>.
\<close>

fun walk :: "filesystem \<Rightarrow> path \<Rightarrow> path \<Rightarrow> error + path" where
  "walk m cur [] = Inr cur"
| "walk m cur (c # cs) =
     (if c = ''..'' then walk m (butlast cur) cs
      else if is_dot c then walk m cur cs
      else (case m (cur @ [c]) of
              None \<Rightarrow> Inl FileNotFoundError
            | Some Dir \<Rightarrow> walk m (cur @ [c]) cs
            | Some (File _) \<Rightarrow> Inl NotADirectoryError))"

text \<open>The entry a system call on path \<open>p\<close> acts on.\<close>

definition locate :: "filesystem \<Rightarrow> path \<Rightarrow> error + path" where
  "locate m p =
     (if p = [] then Inr []
      else bindE (walk m [] (butlast p))
             (\<lambda>d. Inr (if last p = ''..'' then butlast d
                       else if is_dot (last p) then d else d @ [last p])))"

section \<open>The library calls\<close>

text \<open>\<open>Path.mkdir(exist_ok=True)\<close>: \<open>os.mkdir\<close>, with \<open>FileExistsError\<close> swallowed
  when the path already is a directory.\<close>

definition mkdir :: "path \<Rightarrow> world \<Rightarrow> outcome" where
  "mkdir p w =
     (case locate (fs w) p of
        Inl e \<Rightarrow> Inl (e, w)
      | Inr t \<Rightarrow>
          (case fs w t of
             None \<Rightarrow> Inr (w\<lparr>fs := (fs w)(t \<mapsto> Dir)\<rparr>)
           | Some Dir \<Rightarrow> Inr w
           | Some (File _) \<Rightarrow> Inl (FileExistsError, w)))"

text \<open>\<open>with open(p, "w") as f: f.write(s)\<close>: create or truncate, then write.\<close>

definition write_file :: "path \<Rightarrow> string \<Rightarrow> world \<Rightarrow> outcome" where
  "write_file p s w =
     (case locate (fs w) p of
        Inl e \<Rightarrow> Inl (e, w)
      | Inr t \<Rightarrow>
          (case fs w t of
             Some Dir \<Rightarrow> Inl (IsADirectoryError, w)
           | _ \<Rightarrow> Inr (w\<lparr>fs := (fs w)(t \<mapsto> File s)\<rparr>)))"

definition read_file :: "filesystem \<Rightarrow> path \<Rightarrow> error + string" where
  "read_file m p =
     bindE (locate m p)
       (\<lambda>t. case m t of
              None \<Rightarrow> Inl FileNotFoundError
            | Some Dir \<Rightarrow> Inl IsADirectoryError
            | Some (File s) \<Rightarrow> Inr s)"

definition same_file :: "filesystem \<Rightarrow> path \<Rightarrow> path \<Rightarrow> bool" where
  "same_file m a b =
     (case (locate m a, locate m b) of
        (Inr s, Inr t) \<Rightarrow> s = t \<and> m s \<noteq> None
      | _ \<Rightarrow> False)"

text \<open>\<open>shutil.copyfile(src, dst)\<close>: the same-file check, then read and write.\<close>

definition copyfile :: "path \<Rightarrow> path \<Rightarrow> world \<Rightarrow> outcome" where
  "copyfile src dst w =
     (if same_file (fs w) src dst then Inl (SameFileError, w)
      else (case read_file (fs w) src of
              Inl e \<Rightarrow> Inl (e, w)
            | Inr s \<Rightarrow> write_file dst s w))"

definition say :: "string \<Rightarrow> world \<Rightarrow> world" where
  "say msg w = w\<lparr>stdout := stdout w @ [msg]\<rparr>"

section \<open>The file-system invariant\<close>

definition wf_fs :: "filesystem \<Rightarrow> bool" where
  "wf_fs m \<longleftrightarrow> m [] = Some Dir \<and> (\<forall>p \<in> dom m. p \<noteq> [] \<longrightarrow> m (butlast p) = Some Dir)"

text \<open>
  \<open>kept m m'\<close>: every entry of \<open>m\<close> is still there in \<open>m'\<close>, a directory as a
  directory and a file as a file (its content may change). A \<open>sound\<close> step,
  whether it returns or raises, leaves a well-formed file system that keeps every
  entry of the one it started from: nothing is deleted or cleaned up.
\<close>

definition kept :: "filesystem \<Rightarrow> filesystem \<Rightarrow> bool" where
  "kept m m' \<longleftrightarrow> (\<forall>p n. m p = Some n \<longrightarrow> (\<exists>n'. m' p = Some n' \<and> (n = Dir \<longleftrightarrow> n' = Dir)))"

definition result_world :: "outcome \<Rightarrow> world" where
  "result_world r = (case r of Inl (e, w) \<Rightarrow> w | Inr w \<Rightarrow> w)"

definition sound :: "(world \<Rightarrow> outcome) \<Rightarrow> bool" where
  "sound f \<longleftrightarrow>
     (\<forall>w. wf_fs (fs w) \<longrightarrow> wf_fs (fs (result_world (f w))) \<and> kept (fs w) (fs (result_world (f w))))"

definition is_file :: "node option \<Rightarrow> bool" where
  "is_file n \<longleftrightarrow> (case n of Some (File _) \<Rightarrow> True | _ \<Rightarrow> False)"

named_theorems sound_intros \<open>soundness of the builder's steps\<close>

lemmas fs_eval [step_simps] = locate_def read_file_def write_file_def mkdir_def copyfile_def
  same_file_def say_def pjoin_def path_parts_def is_dot_def

section \<open>Joins of simple names\<close>

lemma split_slash_no_slash: "CHR ''/'' \<notin> set s \<Longrightarrow> split_slash cur s = [cur @ s]"
  by (induction s arbitrary: cur) auto

lemma pjoin_simple [simp]: "simple_name s \<Longrightarrow> pjoin p s = p @ [s]"
proof -
  assume s: "simple_name s"
  then obtain c cs where "s = c # cs" by (cases s) (auto simp: simple_name_def)
  with s show ?thesis
    by (auto simp: pjoin_def path_parts_def simple_name_def is_dot_def split_slash_no_slash)
qed

lemma clean_path_snoc [simp]: "clean_path (p @ [n]) \<longleftrightarrow> clean_path p \<and> simple_name n"
  by (auto simp: clean_path_def)

lemma clean_path_append [simp]: "clean_path (xs @ ys) \<longleftrightarrow> clean_path xs \<and> clean_path ys"
  by (auto simp: clean_path_def)

lemma clean_path_Cons [simp]: "clean_path (c # cs) \<longleftrightarrow> simple_name c \<and> clean_path cs"
  by (simp add: clean_path_def)

lemma clean_path_Nil [simp]: "clean_path []"
  by (simp add: clean_path_def)

section \<open>The walk on a well-formed file system\<close>

lemma wf_fs_root: "wf_fs m \<Longrightarrow> m [] = Some Dir"
  by (simp add: wf_fs_def)

lemma wf_fs_parent: "wf_fs m \<Longrightarrow> m p = Some n \<Longrightarrow> p \<noteq> [] \<Longrightarrow> m (butlast p) = Some Dir"
  by (auto simp: wf_fs_def)

lemma wf_fs_prefix_dir:
  assumes "wf_fs m" and "m (xs @ ys) = Some n" and "ys \<noteq> []"
  shows "m xs = Some Dir"
  using assms(2,3)
proof (induction ys arbitrary: n rule: rev_induct)
  case Nil
  then show ?case by simp
next
  case (snoc y ys)
  have "m (xs @ ys) = Some Dir"
    using wf_fs_parent [OF assms(1) snoc.prems(1)] by (simp flip: append_assoc)
  then show ?case by (cases "ys = []") (auto intro: snoc.IH)
qed

lemma walk_dir:
  "wf_fs m \<Longrightarrow> m cur = Some Dir \<Longrightarrow> walk m cur cs = Inr d \<Longrightarrow> m d = Some Dir"
proof (induction cs arbitrary: cur)
  case Nil
  then show ?case by simp
next
  case (Cons c cs)
  have up: "m (butlast cur) = Some Dir"
    using Cons.prems(1,2) by (cases "cur = []") (auto dest: wf_fs_parent)
  show ?case
    using Cons.prems Cons.IH [of "butlast cur"] Cons.IH [of cur] Cons.IH [of "cur @ [c]"] up
    by (auto split: if_splits option.splits node.splits)
qed

lemma walk_clean:
  "wf_fs m \<Longrightarrow> clean_path cs \<Longrightarrow> m (cur @ cs) = Some Dir \<Longrightarrow> walk m cur cs = Inr (cur @ cs)"
proof (induction cs arbitrary: cur)
  case Nil
  then show ?case by simp
next
  case (Cons c cs)
  have c: "simple_name c" and cs: "clean_path cs"
    using Cons.prems(2) by (auto simp: clean_path_def)
  have dir: "m (cur @ [c]) = Some Dir"
  proof (cases "cs = []")
    case True
    with Cons.prems(3) show ?thesis by simp
  next
    case False
    with Cons.prems(1,3) show ?thesis by (intro wf_fs_prefix_dir [of m _ cs]) auto
  qed
  from Cons.IH [OF Cons.prems(1) cs, of "cur @ [c]"] Cons.prems(3) have
    "walk m (cur @ [c]) cs = Inr (cur @ c # cs)" by simp
  with c dir show ?case by (simp add: simple_name_def is_dot_def)
qed

lemma walk_append: "walk m cur (xs @ ys) = bindE (walk m cur xs) (\<lambda>d. walk m d ys)"
  by (induction xs arbitrary: cur) (auto split: option.splits node.splits)

lemma locate_clean:
  "wf_fs m \<Longrightarrow> clean_path p \<Longrightarrow> m p = Some Dir \<Longrightarrow> simple_name n \<Longrightarrow>
   locate m (p @ [n]) = Inr (p @ [n])"
  using walk_clean [of m p "[]"] by (simp add: locate_def simple_name_def is_dot_def)

lemma locate_target:
  assumes "wf_fs m" and "locate m p = Inr t"
  shows "m t = Some Dir \<or> (t \<noteq> [] \<and> m (butlast t) = Some Dir)"
proof (cases "p = []")
  case True
  with assms show ?thesis by (simp add: locate_def wf_fs_root)
next
  case False
  with assms(2) obtain d where d: "walk m [] (butlast p) = Inr d"
    and t: "t = (if last p = ''..'' then butlast d else if is_dot (last p) then d else d @ [last p])"
    by (auto simp: locate_def bindE_eq_Inr_iff)
  have "m d = Some Dir" using walk_dir [OF assms(1) wf_fs_root [OF assms(1)] d] .
  moreover have "m (butlast d) = Some Dir"
    using \<open>m d = Some Dir\<close> assms(1) by (cases "d = []") (auto dest: wf_fs_parent)
  ultimately show ?thesis using t by auto
qed

section \<open>The library calls keep the invariant\<close>

lemma wf_fs_upd:
  assumes "wf_fs m" and "t \<noteq> []" and "m (butlast t) = Some Dir"
    and "m t \<noteq> Some Dir \<or> n = Dir"
  shows "wf_fs (m(t \<mapsto> n))"
proof -
  have "m (butlast p) = Some Dir" if "p \<in> dom m" "p \<noteq> []" for p
    using assms(1) that by (auto simp: wf_fs_def)
  moreover have "butlast p \<noteq> t \<or> n = Dir" if "p \<in> dom m" "p \<noteq> []" for p
    using assms(1,4) that by (auto simp: wf_fs_def)
  moreover have "butlast t \<noteq> t" using assms(2) by (cases t rule: rev_cases) auto
  ultimately show ?thesis
    using assms(1-3) by (auto simp: wf_fs_def)
qed

lemma locate_Inr_nonroot:
  "wf_fs m \<Longrightarrow> locate m p = Inr t \<Longrightarrow> m t \<noteq> Some Dir \<Longrightarrow> t \<noteq> [] \<and> m (butlast t) = Some Dir"
  using locate_target by blast

lemma say_fs [simp]: "fs (say msg w) = fs w"
  by (simp add: say_def)

section \<open>Updates off the walk\<close>

text \<open>A walk that succeeds passes through directories only, so changing an entry
  that is not a directory does not change where it goes.\<close>

lemma walk_upd:
  "walk m cur cs = Inr d \<Longrightarrow> m t \<noteq> Some Dir \<Longrightarrow> walk (m(t \<mapsto> n)) cur cs = Inr d"
proof (induction cs arbitrary: cur)
  case Nil
  then show ?case by simp
next
  case (Cons c cs)
  then show ?case
    by (cases "cur @ [c] = t") (auto split: if_splits option.splits node.splits)
qed

lemma locate_upd:
  "locate m p = Inr d \<Longrightarrow> m t \<noteq> Some Dir \<Longrightarrow> locate (m(t \<mapsto> n)) p = Inr d"
  by (cases "p = []") (auto simp: locate_def bindE_eq_Inr_iff dest: walk_upd [of m _ _ _ t n])

section \<open>What the library calls leave behind\<close>

lemma write_file_Inr:
  "write_file p s w = Inr w' \<Longrightarrow>
   \<exists>t. locate (fs w) p = Inr t \<and> fs w t \<noteq> Some Dir \<and> w' = w\<lparr>fs := (fs w)(t \<mapsto> File s)\<rparr>"
  by (auto simp: write_file_def split: sum.splits option.splits node.splits)

lemma mkdir_Inr:
  "mkdir p w = Inr w' \<Longrightarrow>
   \<exists>t. locate (fs w) p = Inr t \<and> (fs w t = None \<or> fs w t = Some Dir) \<and>
       fs w' = (fs w)(t \<mapsto> Dir) \<and> stdout w' = stdout w \<and> clock w' = clock w"
  by (auto simp: mkdir_def split: sum.splits option.splits node.splits intro: fun_upd_idem [symmetric])

lemma write_file_read:
  assumes "write_file p s w = Inr w'"
  shows "read_file (fs w') p = Inr s"
proof -
  from write_file_Inr [OF assms] obtain t where
    t: "locate (fs w) p = Inr t" and nd: "fs w t \<noteq> Some Dir"
    and w': "w' = w\<lparr>fs := (fs w)(t \<mapsto> File s)\<rparr>" by blast
  from locate_upd [OF t nd] w' have "locate (fs w') p = Inr t" by simp
  with w' show ?thesis by (simp add: read_file_def)
qed

lemma write_file_other:
  "write_file p s w = Inr w' \<Longrightarrow> locate (fs w) p = Inr t \<Longrightarrow> x \<noteq> t \<Longrightarrow> fs w' x = fs w x"
  by (auto simp: write_file_def split: option.splits node.splits)

lemma mkdir_dir:
  "mkdir p w = Inr w' \<Longrightarrow> locate (fs w) p = Inr t \<Longrightarrow> fs w' t = Some Dir"
  by (auto simp: mkdir_def split: option.splits node.splits)

lemma mkdir_wf: "wf_fs (fs w) \<Longrightarrow> mkdir p w = Inr w' \<Longrightarrow> wf_fs (fs w')"
proof -
  assume wf: "wf_fs (fs w)" and ok: "mkdir p w = Inr w'"
  then obtain t where t: "locate (fs w) p = Inr t" and w': "fs w' = (fs w)(t \<mapsto> Dir)"
    using mkdir_Inr by blast
  show ?thesis
  proof (cases "fs w t = Some Dir")
    case True
    with w' wf show ?thesis by (simp add: fun_upd_idem)
  next
    case False
    with locate_Inr_nonroot [OF wf t] wf w' show ?thesis by (simp add: wf_fs_upd)
  qed
qed

lemma write_file_wf: "wf_fs (fs w) \<Longrightarrow> write_file p s w = Inr w' \<Longrightarrow> wf_fs (fs w')"
proof -
  assume wf: "wf_fs (fs w)" and ok: "write_file p s w = Inr w'"
  then obtain t where t: "locate (fs w) p = Inr t" and nd: "fs w t \<noteq> Some Dir"
    and w': "w' = w\<lparr>fs := (fs w)(t \<mapsto> File s)\<rparr>"
    using write_file_Inr by blast
  from locate_Inr_nonroot [OF wf t nd] wf nd w' show ?thesis by (simp add: wf_fs_upd)
qed

lemma copyfile_wf: "wf_fs (fs w) \<Longrightarrow> copyfile src dst w = Inr w' \<Longrightarrow> wf_fs (fs w')"
  by (auto simp: copyfile_def split: if_splits sum.splits intro: write_file_wf)

lemma mkdir_existing: "locate (fs w) p = Inr t \<Longrightarrow> fs w t = Some Dir \<Longrightarrow> mkdir p w = Inr w"
  by (simp add: mkdir_def)

section \<open>Sound steps\<close>

lemma kept_refl [simp]: "kept m m"
  by (auto simp: kept_def)

lemma kept_trans: "kept m1 m2 \<Longrightarrow> kept m2 m3 \<Longrightarrow> kept m1 m3"
  unfolding kept_def by metis

lemma kept_upd: "m t \<noteq> Some Dir \<or> n = Dir \<Longrightarrow> (m t = None \<or> n \<noteq> Dir) \<Longrightarrow> kept m (m(t \<mapsto> n))"
  by (auto simp: kept_def)

lemma result_world_simps [simp]:
  "result_world (Inl (e, w)) = w" "result_world (Inr w) = w"
  by (simp_all add: result_world_def)

lemma soundI:
  "(\<And>w. wf_fs (fs w) \<Longrightarrow> wf_fs (fs (result_world (f w))) \<and> kept (fs w) (fs (result_world (f w))))
   \<Longrightarrow> sound f"
  by (simp add: sound_def)

lemma soundD:
  "sound f \<Longrightarrow> wf_fs (fs w) \<Longrightarrow> wf_fs (fs (result_world (f w))) \<and> kept (fs w) (fs (result_world (f w)))"
  by (simp add: sound_def)

lemma sound_Inr:
  "sound f \<Longrightarrow> wf_fs (fs w) \<Longrightarrow> f w = Inr w' \<Longrightarrow> wf_fs (fs w') \<and> kept (fs w) (fs w')"
  using soundD [of f w] by simp

lemma sound_bindE [sound_intros]:
  assumes "sound f" and "sound g"
  shows "sound (\<lambda>w. bindE (f w) g)"
proof (rule soundI)
  fix w :: world assume wf: "wf_fs (fs w)"
  show "wf_fs (fs (result_world (bindE (f w) g))) \<and> kept (fs w) (fs (result_world (bindE (f w) g)))"
  proof (cases "f w")
    case (Inl ew)
    with soundD [OF assms(1) wf] show ?thesis by (cases ew) simp
  next
    case (Inr w1)
    with soundD [OF assms(1) wf] have "wf_fs (fs w1)" and k: "kept (fs w) (fs w1)" by simp_all
    with soundD [OF assms(2), of w1] Inr show ?thesis by (auto intro: kept_trans)
  qed
qed

lemma sound_foreachE [sound_intros]:
  "(\<And>x. x \<in> set xs \<Longrightarrow> sound (f x)) \<Longrightarrow> sound (foreachE f xs)"
proof (induction xs)
  case Nil
  show ?case by (rule soundI) simp
next
  case (Cons x xs)
  have "sound (\<lambda>w. bindE (f x w) (foreachE f xs))"
    using Cons by (intro sound_bindE) auto
  then show ?case by simp
qed

lemma sound_say [sound_intros]:
  assumes "sound f"
  shows "sound (\<lambda>w. f (say msg w))"
proof (rule soundI)
  fix w :: world assume "wf_fs (fs w)"
  then have "wf_fs (fs (say msg w))" by simp
  from soundD [OF assms this] show
    "wf_fs (fs (result_world (f (say msg w)))) \<and> kept (fs w) (fs (result_world (f (say msg w))))"
    by simp
qed

lemma sound_return [sound_intros]: "sound (\<lambda>w. Inr (say (msg w) w))"
  by (simp add: sound_def)

lemma sound_mkdir [sound_intros]: "sound (mkdir p)"
proof (rule soundI)
  fix w :: world assume wf: "wf_fs (fs w)"
  show "wf_fs (fs (result_world (mkdir p w))) \<and> kept (fs w) (fs (result_world (mkdir p w)))"
  proof (cases "mkdir p w")
    case (Inl ew)
    then show ?thesis using wf
      by (cases ew) (auto simp: mkdir_def split: sum.splits option.splits node.splits)
  next
    case (Inr w')
    from mkdir_Inr [OF Inr] obtain t where "fs w' = (fs w)(t \<mapsto> Dir)"
      and "fs w t = None \<or> fs w t = Some Dir" by blast
    with mkdir_wf [OF wf Inr] Inr show ?thesis by (auto simp: kept_def)
  qed
qed

lemma sound_write_file [sound_intros]: "sound (write_file p s)"
proof (rule soundI)
  fix w :: world assume wf: "wf_fs (fs w)"
  show "wf_fs (fs (result_world (write_file p s w))) \<and> kept (fs w) (fs (result_world (write_file p s w)))"
  proof (cases "write_file p s w")
    case (Inl ew)
    then show ?thesis using wf
      by (cases ew) (auto simp: write_file_def split: sum.splits option.splits node.splits)
  next
    case (Inr w')
    from write_file_Inr [OF Inr] obtain t where "fs w t \<noteq> Some Dir"
      and "w' = w\<lparr>fs := (fs w)(t \<mapsto> File s)\<rparr>" by blast
    with write_file_wf [OF wf Inr] Inr show ?thesis by (auto simp: kept_def)
  qed
qed

lemma sound_copyfile [sound_intros]: "sound (copyfile src dst)"
proof (rule soundI)
  fix w :: world assume wf: "wf_fs (fs w)"
  have "sound (write_file dst s)" for s by (rule sound_write_file)
  then show "wf_fs (fs (result_world (copyfile src dst w))) \<and> kept (fs w) (fs (result_world (copyfile src dst w)))"
    using wf by (auto simp: copyfile_def sound_def split: sum.splits)
qed

section \<open>Entries at clean paths\<close>

lemma mkdir_clean_dir:
  assumes "wf_fs (fs w)" "clean_path p" "fs w p = Some Dir" "simple_name n"
    and "mkdir (p @ [n]) w = Inr w'"
  shows "fs w' (p @ [n]) = Some Dir"
  using mkdir_dir [OF assms(5) locate_clean [OF assms(1-4)]] .

lemma write_clean_file:
  assumes "wf_fs (fs w)" "clean_path p" "fs w p = Some Dir" "simple_name n"
    and "write_file (p @ [n]) s w = Inr w'"
  shows "fs w' (p @ [n]) = Some (File s)"
proof -
  from write_file_Inr [OF assms(5)] obtain t where
    "locate (fs w) (p @ [n]) = Inr t" "w' = w\<lparr>fs := (fs w)(t \<mapsto> File s)\<rparr>" by blast
  with locate_clean [OF assms(1-4)] show ?thesis by simp
qed

lemma kept_dir: "kept m m' \<Longrightarrow> m p = Some Dir \<Longrightarrow> m' p = Some Dir"
  by (auto simp: kept_def)

lemma kept_file: "kept m m' \<Longrightarrow> is_file (m p) \<Longrightarrow> is_file (m' p)"
  by (force simp: kept_def is_file_def split: option.splits node.splits)

lemma is_file_File [simp]: "is_file (Some (File s))"
  by (simp add: is_file_def)

text \<open>In a loop of sound steps that returns, each element's step ran from a
  well-formed state between the start and the end.\<close>

lemma foreachE_mem:
  assumes "foreachE f xs w = Inr w'" and "x \<in> set xs" and "\<And>y. y \<in> set xs \<Longrightarrow> sound (f y)"
    and "wf_fs (fs w)"
  shows "\<exists>t t'. f x t = Inr t' \<and> wf_fs (fs t) \<and> wf_fs (fs t') \<and>
                kept (fs w) (fs t) \<and> kept (fs t') (fs w')"
proof -
  from assms(2) obtain ys zs where xs: "xs = ys @ x # zs" by (auto simp: in_set_conv_decomp)
  from assms(1) xs obtain t where t: "foreachE f ys w = Inr t"
    and rest: "bindE (f x t) (foreachE f zs) = Inr w'"
    by (auto simp: foreachE_append bindE_eq_Inr_iff)
  from rest obtain t' where t': "f x t = Inr t'" and z: "foreachE f zs t' = Inr w'"
    by (auto simp: bindE_eq_Inr_iff)
  have sys: "sound (foreachE f ys)" and szs: "sound (foreachE f zs)"
    using assms(3) xs by (auto intro!: sound_foreachE)
  from sound_Inr [OF sys assms(4) t] have wt: "wf_fs (fs t)" "kept (fs w) (fs t)" by simp_all
  from sound_Inr [OF assms(3) wt(1) t'] xs have wt': "wf_fs (fs t')" by simp
  from sound_Inr [OF szs wt' z] have "kept (fs t') (fs w')" by simp
  with t' wt wt' show ?thesis by blast
qed

section \<open>Calls on clean paths act on exactly that path\<close>

lemma walk_clean_result: "clean_path cs \<Longrightarrow> walk m cur cs = Inr d \<Longrightarrow> d = cur @ cs"
proof (induction cs arbitrary: cur)
  case Nil
  then show ?case by simp
next
  case (Cons c cs)
  then have c: "simple_name c" and cs: "clean_path cs" by (simp_all add: clean_path_def)
  with Cons.prems(2) have "walk m (cur @ [c]) cs = Inr d"
    by (auto simp: simple_name_def is_dot_def split: option.splits node.splits)
  from Cons.IH [OF cs this] show ?case by simp
qed

lemma locate_clean_result: "clean_path p \<Longrightarrow> locate m p = Inr t \<Longrightarrow> t = p"
proof (cases p rule: rev_cases)
  case Nil
  then show "locate m p = Inr t \<Longrightarrow> t = p" by (simp add: locate_def)
next
  case (snoc q n)
  moreover assume "clean_path p" "locate m p = Inr t"
  ultimately show "t = p"
    by (auto simp: locate_def bindE_eq_Inr_iff simple_name_def is_dot_def dest: walk_clean_result)
qed

lemma mkdir_clean_Inr:
  "mkdir p w = Inr w' \<Longrightarrow> clean_path p \<Longrightarrow>
   (fs w p = None \<or> fs w p = Some Dir) \<and> fs w' = (fs w)(p \<mapsto> Dir)"
  using mkdir_Inr [of p w w'] locate_clean_result by blast

lemma write_file_clean_Inr:
  "write_file p s w = Inr w' \<Longrightarrow> clean_path p \<Longrightarrow> fs w' = (fs w)(p \<mapsto> File s)"
  using write_file_Inr [of p s w w'] locate_clean_result by fastforce

lemma copyfile_clean_Inr:
  assumes "copyfile src dst w = Inr w'" and "clean_path src" and "clean_path dst"
  shows "\<exists>s. fs w src = Some (File s) \<and> fs w' = (fs w)(dst \<mapsto> File s)"
proof -
  from assms(1) obtain s where r: "read_file (fs w) src = Inr s" and wr: "write_file dst s w = Inr w'"
    by (auto simp: copyfile_def split: if_splits sum.splits)
  from r have "\<exists>t. locate (fs w) src = Inr t \<and> fs w t = Some (File s)"
    by (cases "locate (fs w) src") (auto simp: read_file_def split: option.splits node.splits)
  then obtain t where "locate (fs w) src = Inr t" and "fs w t = Some (File s)" by blast
  with locate_clean_result [OF assms(2)] have "fs w src = Some (File s)" by blast
  with write_file_clean_Inr [OF wr assms(3)] show ?thesis by blast
qed

section \<open>What the calls print\<close>

lemma say_stdout [simp]: "stdout (say msg w) = stdout w @ [msg]"
  by (simp add: say_def)

lemma foreachE_quiet:
  assumes "foreachE f xs s = Inr s'" and "\<And>x t t'. f x t = Inr t' \<Longrightarrow> stdout t' = stdout t"
  shows "stdout s' = stdout s"
proof -
  have "stdout s' = stdout s @ concat (map (\<lambda>_. []) xs)"
    by (rule foreachE_trace [where obs = stdout, OF assms(1)]) (simp add: assms(2))
  then show ?thesis by simp
qed

lemma say_clock [simp]: "clock (say msg w) = clock w"
  by (simp add: say_def)

lemma mkdir_stdout: "mkdir p w = Inr w' \<Longrightarrow> stdout w' = stdout w"
  by (auto dest: mkdir_Inr)

lemma copyfile_stdout: "copyfile src dst w = Inr w' \<Longrightarrow> stdout w' = stdout w"
  by (auto simp: copyfile_def split: if_splits sum.splits dest!: write_file_Inr)

section \<open>Reads depend only on the entries along the path\<close>

lemma walk_agree:
  "clean_path cs \<Longrightarrow> (\<forall>p. prefix p (cur @ cs) \<longrightarrow> m' p = m p) \<Longrightarrow> walk m' cur cs = walk m cur cs"
proof (induction cs arbitrary: cur)
  case Nil
  then show ?case by simp
next
  case (Cons c cs)
  have c: "simple_name c" and cs: "clean_path cs" using Cons.prems(1) by simp_all
  have eq: "m' (cur @ [c]) = m (cur @ [c])" using Cons.prems(2) by simp
  have "\<forall>p. prefix p ((cur @ [c]) @ cs) \<longrightarrow> m' p = m p" using Cons.prems(2) by simp
  from Cons.IH [OF cs this] c eq show ?case
    by (simp add: simple_name_def is_dot_def split: option.splits node.splits)
qed

lemma read_file_agree:
  assumes "clean_path q" and "\<forall>p. prefix p q \<longrightarrow> m' p = m p"
  shows "read_file m' q = read_file m q"
proof (cases q rule: rev_cases)
  case Nil
  with assms(2) show ?thesis by (simp add: read_file_def locate_def)
next
  case (snoc q' c)
  have c: "simple_name c" and q': "clean_path q'" using assms(1) snoc by simp_all
  have "\<forall>p. prefix p ([] @ q') \<longrightarrow> m' p = m p" using assms(2) snoc by (auto dest: prefix_order.order_trans)
  then have w: "walk m' [] q' = walk m [] q'" using walk_agree [OF q'] by blast
  have eq: "m' q = m q" using assms(2) by simp
  show ?thesis
  proof (cases "walk m [] q'")
    case (Inl e)
    with w snoc show ?thesis by (simp add: read_file_def locate_def)
  next
    case (Inr d)
    with q' have "d = q'" using walk_clean_result [of q' m "[]" d] by simp
    with Inr w snoc c eq show ?thesis
      by (simp add: read_file_def locate_def simple_name_def is_dot_def)
  qed
qed

section \<open>Loops whose steps write disjoint subtrees\<close>

text \<open>Each step \<open>x\<close> changes only entries under its own key \<open>k x\<close> and leaves
  there a fact \<open>R x\<close> that depends only on those entries; distinct keys are
  disjoint subtrees, so every step's fact survives the later steps.\<close>

lemma foreachE_local:
  assumes "foreachE f xs w = Inr w'" and "Q w"
    and "distinct (map k xs)" and "\<forall>x \<in> set xs. \<forall>y \<in> set xs. k x \<noteq> k y \<longrightarrow> k x \<parallel> k y"
    and step: "\<And>x t t'. x \<in> set xs \<Longrightarrow> Q t \<Longrightarrow> f x t = Inr t' \<Longrightarrow>
      Q t' \<and> (\<forall>p. \<not> prefix (k x) p \<longrightarrow> fs t' p = fs t p) \<and> R x (fs t')"
    and local: "\<And>x m m'. x \<in> set xs \<Longrightarrow> (\<forall>p. prefix (k x) p \<longrightarrow> m' p = m p) \<Longrightarrow> R x m \<Longrightarrow> R x m'"
  shows "Q w' \<and> (\<forall>p. (\<forall>x \<in> set xs. \<not> prefix (k x) p) \<longrightarrow> fs w' p = fs w p) \<and>
         (\<forall>x \<in> set xs. R x (fs w'))"
  using assms
proof (induction xs arbitrary: w)
  case Nil
  then show ?case by simp
next
  case (Cons x xs)
  from Cons.prems(1) obtain t where s: "f x w = Inr t" and rest: "foreachE f xs t = Inr w'"
    by (auto simp: bindE_eq_Inr_iff)
  from Cons.prems(5) [OF _ Cons.prems(2) s] have
    qt: "Q t" and fr: "\<forall>p. \<not> prefix (k x) p \<longrightarrow> fs t p = fs w p" and rx: "R x (fs t)" by auto
  have ih: "Q w' \<and> (\<forall>p. (\<forall>y \<in> set xs. \<not> prefix (k y) p) \<longrightarrow> fs w' p = fs t p) \<and>
            (\<forall>y \<in> set xs. R y (fs w'))"
  proof -
    have st: "Q t' \<and> (\<forall>p. \<not> prefix (k y) p \<longrightarrow> fs t' p = fs t p) \<and> R y (fs t')"
      if "y \<in> set xs" "Q t" "f y t = Inr t'" for y t t'
      using Cons.prems(5) [of y t t'] that by simp
    have lo: "R y m'" if "y \<in> set xs" "\<forall>p. prefix (k y) p \<longrightarrow> m' p = m p" "R y m" for y m m'
      using Cons.prems(6) [of y m' m] that by simp
    have dk: "distinct (map k xs)" using Cons.prems(3) by simp
    have pk: "\<forall>x \<in> set xs. \<forall>y \<in> set xs. k x \<noteq> k y \<longrightarrow> k x \<parallel> k y"
      using Cons.prems(4) by (meson list.set_intros(2))
    show ?thesis by (rule Cons.IH [OF rest qt dk pk st lo])
  qed
  have "\<forall>y \<in> set xs. \<not> prefix (k y) p" if "prefix (k x) p" for p
  proof
    fix y assume y: "y \<in> set xs"
    with Cons.prems(3) have "k x \<noteq> k y" by auto
    with Cons.prems(4) y have par: "k x \<parallel> k y" by (meson list.set_intros)
    show "\<not> prefix (k y) p"
    proof
      assume "prefix (k y) p"
      with that have "prefix (k x) (k y) \<or> prefix (k y) (k x)" by (rule prefix_same_cases)
      with par show False by (auto dest: parallelD1 parallelD2)
    qed
  qed
  with ih have "\<forall>p. prefix (k x) p \<longrightarrow> fs w' p = fs t p" by blast
  with Cons.prems(6) [OF _ _ rx] have "R x (fs w')" by simp
  with ih fr show ?case by auto
qed

section \<open>When a call on a clean path succeeds\<close>

lemma locate_clean_parent:
  assumes "wf_fs m" "clean_path q" "q \<noteq> []" "locate m q = Inr t"
  shows "m (butlast q) = Some Dir"
proof -
  from assms(4) obtain d where w: "walk m [] (butlast q) = Inr d"
    using assms(3) by (auto simp: locate_def bindE_eq_Inr_iff)
  have "clean_path (butlast q)" using assms(2) by (auto simp: clean_path_def dest: in_set_butlastD)
  with w have "d = butlast q" using walk_clean_result [of "butlast q" m "[]" d] by simp
  with walk_dir [OF assms(1) wf_fs_root [OF assms(1)] w] show ?thesis by simp
qed

lemma locate_clean_ok:
  assumes "wf_fs m" "clean_path q" "q \<noteq> []" "m (butlast q) = Some Dir"
  shows "locate m q = Inr q"
proof -
  have q: "butlast q @ [last q] = q" using assms(3) by simp
  have "clean_path (butlast q)" "simple_name (last q)"
    using assms(2,3) by (auto simp: clean_path_def dest: in_set_butlastD)
  from locate_clean [OF assms(1) this(1) assms(4) this(2)] q show ?thesis by simp
qed

lemma mkdir_clean_ok:
  assumes "wf_fs (fs w)" "clean_path q" "q \<noteq> [] \<Longrightarrow> fs w (butlast q) = Some Dir"
    and "fs w q = None \<or> fs w q = Some Dir"
  shows "mkdir q w = Inr (w\<lparr>fs := (fs w)(q \<mapsto> Dir)\<rparr>)"
proof -
  have "locate (fs w) q = Inr q"
    using assms(1,2,3) locate_clean_ok [of "fs w" q] by (cases "q = []") (simp_all add: locate_def)
  with assms(4) show ?thesis by (auto simp: mkdir_def fun_upd_idem)
qed

lemma write_clean_ok:
  assumes "wf_fs (fs w)" "clean_path q" "q \<noteq> []" "fs w (butlast q) = Some Dir" "fs w q \<noteq> Some Dir"
  shows "write_file q s w = Inr (w\<lparr>fs := (fs w)(q \<mapsto> File s)\<rparr>)"
  using locate_clean_ok [OF assms(1-4)] assms(5)
  by (simp add: write_file_def split: option.split node.split)

lemma kept_not_dir: "kept m m' \<Longrightarrow> m p = Some (File s) \<Longrightarrow> m' p \<noteq> Some Dir"
  unfolding kept_def by force

lemma same_file_clean: "clean_path s \<Longrightarrow> clean_path d \<Longrightarrow> s \<noteq> d \<Longrightarrow> \<not> same_file m s d"
  by (auto simp: same_file_def split: sum.splits dest: locate_clean_result)

end
