(* ===== verification/Models.thy ===== *)
theory Models
  imports Prelude
begin

text \<open>
  The domain data the builder reads and the repositories it reads them from.
  \<open>techcity.models\<close> and the three repositories are not among the sources, so
  the records and the repository interface are modelled from the interface the
  builder consumes: an event with its identity, instant, description, optional
  \<open>joint_with\<close> marker and owning group's slug; a group; a hackathon; and the
  repository calls \<open>all()\<close>, \<open>filter_around(now)\<close>,
  \<open>filter_group(slug, now, past=...)\<close> and \<open>find_by(slug)\<close>. The messages of
  \<open>techcity/events/__init__.py\<close> are one datatype.
\<close>

section \<open>Domain records\<close>

record event =
  event_id :: string
  "when" :: instant
  description :: string
  joint_with :: "string option"
  group_slug :: string

record group =
  slug :: string
  name :: string
  attributes :: "(string \<times> string) list"

record hackathon =
  hackathon_slug :: string
  hackathon_name :: string

text \<open>Python truthiness of \<open>event.joint_with\<close>: neither \<open>None\<close> nor empty.\<close>

definition is_joint :: "event \<Rightarrow> bool" where
  "is_joint e \<longleftrightarrow> (case joint_with e of None \<Rightarrow> False | Some s \<Rightarrow> s \<noteq> [])"

section \<open>Messages of the event bus\<close>

text \<open>The four pydantic message classes: three operator commands, one
  integration event carrying the published event.\<close>

datatype message =
    BroadcastTriggered
  | BuildTriggered
  | FetchTriggered (cached: bool)
  | EventPublished event

section \<open>Repositories\<close>

text \<open>
  The three repositories as the builder sees them: read-only snapshots for the
  whole build. \<open>filter_around\<close> and \<open>filter_group\<close> are windows the repository
  defines; \<open>None\<close> as the \<open>past\<close> argument is the repository's default window.
\<close>

record repositories =
  all_events :: "event list"
  filter_around :: "instant \<Rightarrow> event list"
  filter_group :: "string \<Rightarrow> instant \<Rightarrow> delta option \<Rightarrow> event list"
  all_groups :: "group list"
  all_hackathons :: "hackathon list"

text \<open>\<open>GroupRepository.find_by(slug)\<close>: the group with that slug, \<open>None\<close> when
  there is none.\<close>

definition find_by :: "group list \<Rightarrow> string \<Rightarrow> group option" where
  "find_by gs s = find (\<lambda>g. slug g = s) gs"

lemma find_by_Some: "find_by gs s = Some g \<Longrightarrow> g \<in> set gs \<and> slug g = s"
  by (auto simp: find_by_def find_Some_iff)

lemma find_by_None: "find_by gs s = None \<longleftrightarrow> (\<forall>g \<in> set gs. slug g \<noteq> s)"
  by (auto simp: find_by_def find_None_iff)

end
