(* ===== verification/Render.thy ===== *)
theory Render
  imports FileSystem Models
begin

text \<open>
  The \<open>SiteBuilder\<close> object and its write primitive \<open>render\<close>
  (\<open>src/techcity/services/builder/build.py\<close>, \<open>__init__\<close> and \<open>render\<close>):
  the builder's fields, the Jinja environment bound to the template directory
  with auto-escaping on, the template context as the flat key/value dict the
  passes build, and \<open>render\<close> as template lookup followed by a whole-file write.
  The Jinja engine itself, \<open>tailwindify_html\<close> and the formatting of the elapsed
  seconds are external and stay parameters (\<open>externals\<close>).
\<close>

section \<open>Template contexts\<close>

text \<open>A value of a context: one constructor per kind of value the passes put
  into a template's dict, \<open>CNone\<close> for Python's \<open>None\<close>.\<close>

datatype cval =
    CEventGroups "(event \<times> group option) list"
  | CEvents "event list"
  | CEvent event
  | CGroups "group list"
  | CGroup group
  | CHackathons "hackathon list"
  | CHackathon hackathon
  | CInstant instant
  | CHtml string
  | CNone

type_synonym context_dict = "(string \<times> cval) list"

definition opt_group :: "group option \<Rightarrow> cval" where
  "opt_group g = (case g of None \<Rightarrow> CNone | Some g' \<Rightarrow> CGroup g')"

section \<open>External collaborators\<close>

record externals =
  engine :: "bool \<Rightarrow> string \<Rightarrow> context_dict \<Rightarrow> string"
  tailwindify_html :: "string \<Rightarrow> string"
  show_seconds :: "delta \<Rightarrow> string"

section \<open>The builder object\<close>

record environment =
  loader :: path
  autoescape :: bool

record site_builder =
  now :: instant
  out :: path
  templates :: path
  public :: path
  env :: environment

text \<open>\<open>SiteBuilder.__init__\<close>: \<open>service_path\<close> is the directory of \<open>build.py\<close>.\<close>

definition init_site_builder :: "instant \<Rightarrow> path \<Rightarrow> path \<Rightarrow> site_builder" where
  "init_site_builder n out_dir service_path =
     \<lparr>now = n, out = out_dir,
      templates = pjoin service_path ''templates'',
      public = pjoin service_path ''public'',
      env = \<lparr>loader = pjoin service_path ''templates'', autoescape = True\<rparr>\<rparr>"

section \<open>Template lookup and render\<close>

text \<open>
  Jinja's \<open>FileSystemLoader\<close>: the name is split at slashes, a \<open>..\<close> piece is
  refused, and the file below the search path must be readable; every failure
  is \<open>TemplateNotFound\<close>.
\<close>

definition get_template :: "environment \<Rightarrow> filesystem \<Rightarrow> string \<Rightarrow> error + string" where
  "get_template e m tname =
     (if ''..'' \<in> set (split_slash [] tname) then Inl (TemplateNotFound tname)
      else (case read_file m (pjoin (loader e) tname) of
              Inl _ \<Rightarrow> Inl (TemplateNotFound tname)
            | Inr src \<Rightarrow> Inr src))"

text \<open>\<open>SiteBuilder.render\<close>: look the template up, then overwrite
  \<open>out_path\<close> with the rendered text.\<close>

definition render ::
  "externals \<Rightarrow> site_builder \<Rightarrow> string \<Rightarrow> context_dict \<Rightarrow> path \<Rightarrow> world \<Rightarrow> outcome" where
  "render x b tname ctx out_path w =
     (case get_template (env b) (fs w) tname of
        Inl e \<Rightarrow> Inl (e, w)
      | Inr src \<Rightarrow> write_file out_path (engine x (autoescape (env b)) src ctx) w)"

section \<open>Facts about render\<close>

lemma render_Inr:
  "render x b tname ctx p w = Inr w' \<Longrightarrow>
   \<exists>src. get_template (env b) (fs w) tname = Inr src \<and>
         write_file p (engine x (autoescape (env b)) src ctx) w = Inr w'"
  by (auto simp: render_def split: sum.splits)

lemma render_wf: "wf_fs (fs w) \<Longrightarrow> render x b tname ctx p w = Inr w' \<Longrightarrow> wf_fs (fs w')"
  by (auto dest!: render_Inr intro: write_file_wf)

lemma render_read:
  "render x b tname ctx p w = Inr w' \<Longrightarrow> get_template (env b) (fs w) tname = Inr src \<Longrightarrow>
   read_file (fs w') p = Inr (engine x (autoescape (env b)) src ctx)"
  by (auto dest!: render_Inr intro: write_file_read)

lemma render_no_template:
  "get_template (env b) (fs w) tname = Inl e \<Longrightarrow> render x b tname ctx p w = Inl (e, w)"
  by (simp add: render_def)

lemma render_stdout: "render x b tname ctx p w = Inr w' \<Longrightarrow> stdout w' = stdout w"
  by (auto dest!: render_Inr write_file_Inr)

lemma sound_render [sound_intros]: "sound (render x b tname ctx p)"
proof (rule soundI)
  fix w :: world assume wf: "wf_fs (fs w)"
  show "wf_fs (fs (result_world (render x b tname ctx p w))) \<and>
        kept (fs w) (fs (result_world (render x b tname ctx p w)))"
  proof (cases "get_template (env b) (fs w) tname")
    case (Inl e)
    with wf show ?thesis by (simp add: render_def)
  next
    case (Inr src)
    with soundD [OF sound_write_file wf] show ?thesis by (simp add: render_def)
  qed
qed

lemma render_clean_file:
  assumes "wf_fs (fs w)" "clean_path p" "fs w p = Some Dir" "simple_name n"
    and "render x b tname ctx (p @ [n]) w = Inr w'"
  shows "is_file (fs w' (p @ [n]))"
  using render_Inr [OF assms(5)] write_clean_file [OF assms(1-4)] by fastforce

lemma get_template_agree:
  assumes "clean_path (loader e)" and "simple_name tname" and "d \<parallel> loader e"
    and "\<forall>p. \<not> prefix d p \<longrightarrow> m' p = m p"
  shows "get_template e m' tname = get_template e m tname"
proof -
  have "\<not> prefix d p" if "prefix p (loader e @ [tname])" for p
  proof
    assume "prefix d p"
    from this that have "prefix d (loader e @ [tname])" by (rule prefix_order.trans)
    then have "d = loader e @ [tname] \<or> prefix d (loader e)" by simp
    with assms(3) show False by (auto dest: parallelD1 parallelD2)
  qed
  with assms(4) have "read_file m' (loader e @ [tname]) = read_file m (loader e @ [tname])"
    using assms(1,2) by (intro read_file_agree) simp_all
  with assms(2) show ?thesis by (simp add: get_template_def)
qed

lemma render_clean_Inr:
  "render x b tname ctx p w = Inr w' \<Longrightarrow> clean_path p \<Longrightarrow> get_template (env b) (fs w) tname = Inr src \<Longrightarrow>
   fs w' = (fs w)(p \<mapsto> File (engine x (autoescape (env b)) src ctx))"
  by (auto dest!: render_Inr dest: write_file_clean_Inr)

lemma get_template_reads:
  assumes "clean_path (loader e)" "simple_name t" "\<forall>a. prefix a (loader e @ [t]) \<longrightarrow> m' a = m a"
  shows "get_template e m' t = get_template e m t"
proof -
  have "clean_path (loader e @ [t])" using assms(1,2) by simp
  from read_file_agree [OF this assms(3)] assms(2) show ?thesis by (simp add: get_template_def)
qed

text \<open>C11. Looking up a template that is not in the template directory raises
  \<open>TemplateNotFound\<close> before the output file is opened: \<open>render\<close> aborts and
  the world is left as it was.\<close>

theorem render_missing_template:
  assumes "wf_fs (fs w)" and "clean_path (loader (env b))" and "fs w (loader (env b)) = Some Dir"
    and "simple_name tname" and "fs w (loader (env b) @ [tname]) = None"
  shows "render x b tname ctx p w = Inl (TemplateNotFound tname, w)"
proof -
  have "split_slash [] tname = [tname]" and "tname \<noteq> ''..''"
    using assms(4) by (simp_all add: simple_name_def split_slash_no_slash)
  moreover have "read_file (fs w) (loader (env b) @ [tname]) = Inl FileNotFoundError"
    using locate_clean [OF assms(1-4)] assms(5) by (simp add: read_file_def)
  ultimately show ?thesis using assms(4) by (simp add: render_def get_template_def)
qed

end
