(* ===== verification/Examples.thy ===== *)
theory Examples
  imports Render
begin

text \<open>
  Concrete inputs on which the witnesses evaluate the builder: a snapshot
  instant \<open>0\<close>, one group \<open>g1\<close>, a hackathon, a past, a future and a joint event
  (microsecond instants, one day \<open>= 86400000000\<close>), repositories whose
  \<open>filter_around\<close> lists events latest first, a service directory \<open>/svc\<close>
  holding the six templates and one static file, and an output directory
  \<open>/out\<close> still to be created. The Jinja engine is the identity on the template
  source.
\<close>

definition ex_g1 :: group where
  "ex_g1 = \<lparr>slug = ''g1'', name = ''Group One'', attributes = [(''color'', ''red'')]\<rparr>"

definition ex_hack :: hackathon where
  "ex_hack = \<lparr>hackathon_slug = ''h1'', hackathon_name = ''Hack One''\<rparr>"

definition ex_past :: event where
  "ex_past = \<lparr>event_id = ''e1'', when = -86400000000, description = ''past'',
              joint_with = None, group_slug = ''g1''\<rparr>"

definition ex_future :: event where
  "ex_future = \<lparr>event_id = ''e2'', when = 86400000000, description = ''future'',
                joint_with = None, group_slug = ''g1''\<rparr>"

definition ex_joint :: event where
  "ex_joint = \<lparr>event_id = ''e3'', when = 3600000000, description = ''joint'',
               joint_with = Some ''Other Group'', group_slug = ''g1''\<rparr>"

definition ex_repos :: repositories where
  "ex_repos =
     \<lparr>all_events = [ex_past, ex_future, ex_joint],
      filter_around = (\<lambda>_. [ex_future, ex_joint, ex_past]),
      filter_group = (\<lambda>s n past. if s = ''g1'' then [ex_future, ex_past] else []),
      all_groups = [ex_g1],
      all_hackathons = [ex_hack]\<rparr>"

definition ex_externals :: externals where
  "ex_externals = \<lparr>engine = (\<lambda>ae src ctx. src), tailwindify_html = (\<lambda>h. h),
                   show_seconds = (\<lambda>d. ''0.5'')\<rparr>"

definition ex_builder :: site_builder where
  "ex_builder = init_site_builder 0 [''out''] [''svc'']"

definition ex_fs :: filesystem where
  "ex_fs =
     [[] \<mapsto> Dir, [''svc''] \<mapsto> Dir, [''svc'', ''templates''] \<mapsto> Dir,
      [''svc'', ''templates'', ''index.html''] \<mapsto> File ''INDEX'',
      [''svc'', ''templates'', ''event.html''] \<mapsto> File ''EVENT'',
      [''svc'', ''templates'', ''group.html''] \<mapsto> File ''GROUP'',
      [''svc'', ''templates'', ''group_events.html''] \<mapsto> File ''GROUP_EVENTS'',
      [''svc'', ''templates'', ''hackathon.html''] \<mapsto> File ''HACKATHON'',
      [''svc'', ''templates'', ''palette.html''] \<mapsto> File ''PALETTE'',
      [''svc'', ''public''] \<mapsto> Dir,
      [''svc'', ''public'', ''site.css''] \<mapsto> File ''CSS'']"

definition ex_world :: world where
  "ex_world = \<lparr>fs = ex_fs, stdout = [], clock = 500000\<rparr>"

text \<open>The same world once \<open>/out\<close> exists, as after the first step of a build.\<close>

definition ex_world_out :: world where
  "ex_world_out = \<lparr>fs = ex_fs([''out''] \<mapsto> Dir), stdout = [], clock = 500000\<rparr>"

text \<open>An event whose identity is \<open>..\<close>, and the world once \<open>/out/events\<close> exists.\<close>

definition ex_dotdot :: event where
  "ex_dotdot = \<lparr>event_id = ''..'', when = 0, description = ''odd'',
                joint_with = None, group_slug = ''g1''\<rparr>"

definition ex_world_events :: world where
  "ex_world_events = \<lparr>fs = ex_fs([''out''] \<mapsto> Dir, [''out'', ''events''] \<mapsto> Dir), stdout = [], clock = 500000\<rparr>"

text \<open>The world without the event template.\<close>

definition ex_world_no_event :: world where
  "ex_world_no_event = \<lparr>fs = ex_fs([''svc'', ''templates'', ''event.html''] := None), stdout = [], clock = 500000\<rparr>"

text \<open>The world whose static tree also holds an \<open>index.html\<close>.\<close>

definition ex_world_static :: world where
  "ex_world_static = \<lparr>fs = ex_fs([''svc'', ''public'', ''index.html''] \<mapsto> File ''STATIC''), stdout = [], clock = 500000\<rparr>"

text \<open>The world whose static tree holds a file \<open>events\<close>, where the event
  pages' directory goes.\<close>

definition ex_world_clash :: world where
  "ex_world_clash = \<lparr>fs = ex_fs([''svc'', ''public'', ''events''] \<mapsto> File ''CLASH''), stdout = [], clock = 500000\<rparr>"

text \<open>Two events sharing the identity \<open>e1\<close>, and an engine that appends the
  rendered description to the template source, so that a page shows which
  event it was rendered for.\<close>

definition ex_dup :: event where
  "ex_dup = \<lparr>event_id = ''e1'', when = -3600000000, description = ''second'',
             joint_with = None, group_slug = ''g1''\<rparr>"

definition ex_repos_dup :: repositories where
  "ex_repos_dup = ex_repos\<lparr>all_events := [ex_past, ex_dup]\<rparr>"

definition ex_externals_desc :: externals where
  "ex_externals_desc = ex_externals\<lparr>engine := (\<lambda>ae src ctx.
     src @ (case map_of ctx ''description'' of Some (CHtml h) \<Rightarrow> h | _ \<Rightarrow> []))\<rparr>"

lemmas ex_defs = ex_g1_def ex_hack_def ex_past_def ex_future_def ex_joint_def ex_repos_def
  ex_externals_def ex_builder_def ex_fs_def ex_world_def ex_world_out_def ex_dotdot_def ex_world_events_def ex_world_no_event_def
  ex_world_static_def ex_world_clash_def ex_dup_def ex_repos_dup_def ex_externals_desc_def
  init_site_builder_def

section \<open>Witnesses of the render claims\<close>

theorem render_missing_template_witness:
  "wf_fs (fs ex_world) \<and> clean_path (loader (env ex_builder)) \<and>
   fs ex_world (loader (env ex_builder)) = Some Dir \<and> simple_name ''missing.html'' \<and>
   fs ex_world (loader (env ex_builder) @ [''missing.html'']) = None \<and>
   render ex_externals ex_builder ''missing.html'' [] [''out'', ''x.html''] ex_world =
     Inl (TemplateNotFound ''missing.html'', ex_world)"
proof -
  have h: "wf_fs (fs ex_world)" "clean_path (loader (env ex_builder))"
    "fs ex_world (loader (env ex_builder)) = Some Dir" "simple_name ''missing.html''"
    "fs ex_world (loader (env ex_builder) @ [''missing.html'']) = None"
    by (simp_all add: wf_fs_def clean_path_def simple_name_def ex_defs step_simps)
  from render_missing_template [OF h, of ex_externals "[]" "[''out'', ''x.html'']"] h show ?thesis
    by simp
qed

end
