(* ===== verification/IndexPass.thy ===== *)
theory IndexPass
  imports Examples
begin

text \<open>
  \<open>SiteBuilder.render_index\<close>: one forward scan over
  \<open>filter_around(now)\<close> appends each event, paired with its resolved group, to
  the list that \<open>events_with_group\<close> currently aliases; the alias switches
  from the upcoming list to the recent list, for good, at the first event whose
  instant is before \<open>now\<close>. The alias is the \<open>bucket\<close> argument of
  \<open>index_scan\<close>. The scan is shown equal to a \<open>takeWhile\<close>/\<open>dropWhile\<close>
  split, from which follow: every past event is recent; with the input
  ordered latest first, the buckets are exactly the future and the past events;
  with the input ordered earliest first (the order the spec names) every event
  lands in the recent bucket as soon as the first one is past.
\<close>

datatype bucket = Upcoming | Recent

definition resolve_group :: "group list \<Rightarrow> event \<Rightarrow> group option" where
  "resolve_group gs e = (if is_joint e then None else find_by gs (group_slug e))"

fun index_scan ::
  "instant \<Rightarrow> group list \<Rightarrow> event list \<Rightarrow> bucket \<Rightarrow>
   (event \<times> group option) list \<Rightarrow> (event \<times> group option) list \<Rightarrow>
   (event \<times> group option) list \<times> (event \<times> group option) list" where
  "index_scan n gs [] b up rc = (up, rc)"
| "index_scan n gs (e # es) b up rc =
     (let b' = (if when e < n then Recent else b);
          item = (e, resolve_group gs e)
      in (case b' of
            Upcoming \<Rightarrow> index_scan n gs es b' (up @ [item]) rc
          | Recent \<Rightarrow> index_scan n gs es b' up (rc @ [item])))"

definition index_buckets ::
  "site_builder \<Rightarrow> repositories \<Rightarrow> (event \<times> group option) list \<times> (event \<times> group option) list" where
  "index_buckets b r = index_scan (now b) (all_groups r) (filter_around r (now b)) Upcoming [] []"

definition index_context :: "site_builder \<Rightarrow> repositories \<Rightarrow> context_dict" where
  "index_context b r =
     (case index_buckets b r of (up, rc) \<Rightarrow>
       [(''upcoming_events_with_group'', CEventGroups (rev up)),
        (''recent_events_with_group'', CEventGroups rc),
        (''groups'', CGroups (all_groups r)),
        (''hackathons'', CHackathons (all_hackathons r)),
        (''now'', CInstant (now b))])"

definition render_index :: "externals \<Rightarrow> site_builder \<Rightarrow> repositories \<Rightarrow> world \<Rightarrow> outcome" where
  "render_index x b r w =
     render x b ''index.html'' (index_context b r) (pjoin (out b) ''index.html'')
       (say ''Rendering index'' w)"

section \<open>The scan as a split of its input\<close>

definition with_group :: "group list \<Rightarrow> event \<Rightarrow> event \<times> group option" where
  "with_group gs e = (e, resolve_group gs e)"

definition not_past :: "instant \<Rightarrow> event \<Rightarrow> bool" where
  "not_past n = (\<lambda>e. \<not> when e < n)"

lemma index_scan_Recent:
  "index_scan n gs es Recent up rc = (up, rc @ map (with_group gs) es)"
  by (induction es arbitrary: rc) (simp_all add: with_group_def)

lemma index_scan_Upcoming:
  "index_scan n gs es Upcoming up rc =
     (up @ map (with_group gs) (takeWhile (not_past n) es),
      rc @ map (with_group gs) (dropWhile (not_past n) es))"
proof (induction es arbitrary: up rc)
  case Nil
  then show ?case by simp
next
  case (Cons e es)
  then show ?case
    by (simp add: not_past_def with_group_def index_scan_Recent)
qed

lemma fst_with_group [simp]: "fst (with_group gs e) = e"
  and snd_with_group [simp]: "snd (with_group gs e) = resolve_group gs e"
  by (simp_all add: with_group_def)

lemma with_group_mem: "(e, g) \<in> set (map (with_group gs) es) \<longleftrightarrow> e \<in> set es \<and> g = resolve_group gs e"
  by (auto simp: with_group_def)

section \<open>Properties of the index pass\<close>

text \<open>C1. The forward scan with its irreversible bucket switch computes the
  split of the input at its first past-due event: the upcoming list is the
  longest prefix of events not before \<open>now\<close>, the recent list the rest, each
  event paired with its resolved group.\<close>

theorem index_scan_refines:
  "index_scan n gs es Upcoming [] [] =
     (map (with_group gs) (takeWhile (not_past n) es),
      map (with_group gs) (dropWhile (not_past n) es))"
  using index_scan_Upcoming [of n gs es "[]" "[]"] by simp

text \<open>C2. Whatever the order of the input, an event before \<open>now\<close> is in the
  recent list, with its resolved group, and never in the upcoming list.\<close>

theorem past_event_recent:
  assumes "e \<in> set es" and "when e < n"
  shows "(e, resolve_group gs e) \<in> set (snd (index_scan n gs es Upcoming [] [])) \<and>
         e \<notin> set (map fst (fst (index_scan n gs es Upcoming [] [])))"
proof -
  have "e \<notin> set (takeWhile (not_past n) es)"
    using assms(2) by (auto dest: set_takeWhileD simp: not_past_def)
  moreover have "e \<in> set (takeWhile (not_past n) es) \<union> set (dropWhile (not_past n) es)"
    using assms(1) takeWhile_dropWhile_id [of "not_past n" es] by (metis set_append)
  ultimately show ?thesis
    by (auto simp: index_scan_Upcoming with_group_def)
qed

theorem past_event_recent_witness:
  "ex_past \<in> set [ex_future, ex_joint, ex_past] \<and> when ex_past < 0 \<and>
   (ex_past, resolve_group [ex_g1] ex_past)
      \<in> set (snd (index_scan 0 [ex_g1] [ex_future, ex_joint, ex_past] Upcoming [] [])) \<and>
   ex_past \<notin> set (map fst (fst (index_scan 0 [ex_g1] [ex_future, ex_joint, ex_past] Upcoming [] [])))"
  using past_event_recent [of ex_past "[ex_future, ex_joint, ex_past]" 0 "[ex_g1]"]
  by (simp add: ex_defs)

text \<open>C3. When the repository lists events latest first, the upcoming list
  holds exactly the events not before \<open>now\<close> and the recent list exactly the
  events before it, both in input order.\<close>

theorem index_partition_latest_first:
  assumes "sorted_wrt (\<lambda>x y. when y \<le> when x) es"
  shows "index_scan n gs es Upcoming [] [] =
           (map (with_group gs) (filter (not_past n) es),
            map (with_group gs) (filter (\<lambda>e. when e < n) es))"
proof -
  have "sorted_wrt (\<lambda>x y. \<not> not_past n x \<longrightarrow> \<not> not_past n y) es"
    by (rule sorted_wrt_mono_rel [OF _ assms]) (auto simp: not_past_def)
  from takeWhile_dropWhile_filter [OF this] show ?thesis
    by (simp add: index_scan_Upcoming not_past_def)
qed

theorem index_partition_latest_first_witness:
  "sorted_wrt (\<lambda>x y. when y \<le> when x) [ex_future, ex_joint, ex_past] \<and>
   index_scan 0 [ex_g1] [ex_future, ex_joint, ex_past] Upcoming [] [] =
     (map (with_group [ex_g1]) [ex_future, ex_joint], map (with_group [ex_g1]) [ex_past])"
  using index_partition_latest_first [of "[ex_future, ex_joint, ex_past]" 0 "[ex_g1]"]
  by (simp add: ex_defs not_past_def)

text \<open>C4. When the first event of the input is already past, as it is for a
  non-empty input listed earliest first with any past event, the switch happens
  at once and every event, future ones included, is rendered as recent; the
  upcoming list is empty.\<close>

theorem index_earliest_first_all_recent:
  assumes "es \<noteq> []" and "when (hd es) < n"
  shows "index_scan n gs es Upcoming [] [] = ([], map (with_group gs) es)"
  using assms by (cases es) (simp_all add: index_scan_Upcoming not_past_def)

theorem index_earliest_first_all_recent_witness:
  "[ex_past, ex_future] \<noteq> [] \<and> when (hd [ex_past, ex_future]) < 0 \<and> \<not> when ex_future < 0 \<and>
   index_scan 0 [ex_g1] [ex_past, ex_future] Upcoming [] [] =
     ([], map (with_group [ex_g1]) [ex_past, ex_future])"
  using index_earliest_first_all_recent [of "[ex_past, ex_future]" 0 "[ex_g1]"]
  by (simp add: ex_defs)

text \<open>C5. The scan loses, duplicates and reorders no event: the upcoming
  events followed by the recent events are the input.\<close>

theorem index_order_preserved:
  "map fst (fst (index_scan n gs es Upcoming [] [])) @
   map fst (snd (index_scan n gs es Upcoming [] [])) = es"
  by (simp add: index_scan_Upcoming comp_def)

text \<open>C6. On the index, a joint event is paired with no group and any other
  event with \<open>find_by\<close> of its group slug.\<close>

theorem index_group_resolution:
  assumes "(e, g) \<in> set (fst (index_scan n gs es Upcoming [] [])) \<union>
                     set (snd (index_scan n gs es Upcoming [] []))"
  shows "g = (if is_joint e then None else find_by gs (group_slug e))"
  using assms by (auto simp: index_scan_Upcoming with_group_def resolve_group_def)

theorem index_group_resolution_witness:
  "(ex_joint, None) \<in> set (fst (index_scan 0 [ex_g1] [ex_future, ex_joint, ex_past] Upcoming [] [])) \<union>
                      set (snd (index_scan 0 [ex_g1] [ex_future, ex_joint, ex_past] Upcoming [] [])) \<and>
   is_joint ex_joint \<and> find_by [ex_g1] (group_slug ex_joint) = Some ex_g1"
  using index_group_resolution [of ex_joint None 0 "[ex_g1]" "[ex_future, ex_joint, ex_past]"]
  by (simp add: ex_defs resolve_group_def is_joint_def find_by_def)

text \<open>C7. With the repository listing events latest first, the index context's
  upcoming entry is the reversed upcoming list: the future events, soonest
  first.\<close>

theorem index_upcoming_soonest_first:
  assumes "sorted_wrt (\<lambda>x y. when y \<le> when x) (filter_around r (now b))"
  shows "map_of (index_context b r) ''upcoming_events_with_group'' =
           Some (CEventGroups (rev (map (with_group (all_groups r))
                                    (filter (not_past (now b)) (filter_around r (now b)))))) \<and>
         sorted (map when (rev (filter (not_past (now b)) (filter_around r (now b)))))"
proof -
  let ?es = "filter_around r (now b)"
  have "sorted_wrt (\<lambda>x y. \<not> not_past (now b) x \<longrightarrow> \<not> not_past (now b) y) ?es"
    by (rule sorted_wrt_mono_rel [OF _ assms]) (auto simp: not_past_def)
  from takeWhile_dropWhile_filter [OF this] have
    "takeWhile (not_past (now b)) ?es = filter (not_past (now b)) ?es" by simp
  moreover have "sorted (map when (rev (filter (not_past (now b)) ?es)))"
    using assms by (simp add: rev_map [symmetric] sorted_wrt_rev sorted_wrt_map sorted_wrt_filter)
  ultimately show ?thesis
    by (simp add: index_context_def index_buckets_def index_scan_Upcoming)
qed

theorem index_upcoming_soonest_first_witness:
  "sorted_wrt (\<lambda>x y. when y \<le> when x) (filter_around ex_repos (now ex_builder)) \<and>
   map_of (index_context ex_builder ex_repos) ''upcoming_events_with_group'' =
     Some (CEventGroups [(ex_joint, None), (ex_future, Some ex_g1)])"
  using index_upcoming_soonest_first [of ex_repos ex_builder]
  by (simp add: ex_defs not_past_def with_group_def resolve_group_def is_joint_def find_by_def)

text \<open>C8. A successful index pass leaves \<open>index.html\<close> under the output root
  holding the index template rendered against the index context.\<close>

theorem render_index_writes:
  assumes "render_index x b r w = Inr w'"
    and "get_template (env b) (fs w) ''index.html'' = Inr src"
  shows "read_file (fs w') (pjoin (out b) ''index.html'') =
           Inr (engine x (autoescape (env b)) src (index_context b r))"
  using assms by (auto simp: render_index_def intro: render_read)

theorem render_index_writes_witness:
  "\<exists>w'. render_index ex_externals ex_builder ex_repos ex_world_out = Inr w' \<and>
        get_template (env ex_builder) (fs ex_world_out) ''index.html'' = Inr ''INDEX'' \<and>
        read_file (fs w') [''out'', ''index.html''] = Inr ''INDEX''"
proof -
  have t: "get_template (env ex_builder) (fs ex_world_out) ''index.html'' = Inr ''INDEX''"
    by (simp add: get_template_def ex_defs step_simps)
  have "\<exists>w'. render_index ex_externals ex_builder ex_repos ex_world_out = Inr w'"
    by (simp add: render_index_def render_def get_template_def ex_defs step_simps)
  then obtain w' where r: "render_index ex_externals ex_builder ex_repos ex_world_out = Inr w'" ..
  from render_index_writes [OF r t] have
    "read_file (fs w') (pjoin (out ex_builder) ''index.html'') =
       Inr (engine ex_externals (autoescape (env ex_builder)) ''INDEX''
              (index_context ex_builder ex_repos))" .
  then have "read_file (fs w') [''out'', ''index.html''] = Inr ''INDEX''"
    by (simp add: ex_defs step_simps)
  with r t show ?thesis by blast
qed

end
