(* ===== verification/Passes.thy ===== *)
theory Passes
  imports IndexPass
begin

text \<open>
  The other rendering passes of \<open>SiteBuilder\<close> and the static copy, each one
  definition per method of \<open>build.py\<close>: \<open>render_events\<close> (a directory and a
  page per event), \<open>render_groups\<close> with \<open>render_group\<close> and
  \<open>render_group_events\<close> (two pages per group), \<open>render_hackathons\<close> with
  \<open>render_hackathon\<close>, \<open>render_palette\<close> (a file written into the template
  directory), and \<open>copy_static\<close>. Each \<open>for\<close> loop is \<open>foreachE\<close>: the first
  exception aborts the pass. \<open>os.walk\<close> is the list of (relative directory,
  file names) pairs it yields, top-down; \<open>os_walk_spec\<close> states what the
  operating system guarantees of that list (shown of \<open>os.walk\<close> itself in
  \<open>StaticCopy\<close>). The lemmas give what each pass prints, the pages of the
  event, group and hackathon passes (the first and last through
  \<open>pass_pages\<close>), the static copy's mirror property, and that every context
  dict has distinct keys.
\<close>

section \<open>Events\<close>

definition event_context :: "externals \<Rightarrow> repositories \<Rightarrow> event \<Rightarrow> context_dict" where
  "event_context x r e =
     [(''description'', CHtml (tailwindify_html x (''<div>'' @ description e @ ''</div>''))),
      (''event'', CEvent e),
      (''group'', opt_group (find_by (all_groups r) (group_slug e)))]"

definition render_event ::
  "externals \<Rightarrow> site_builder \<Rightarrow> repositories \<Rightarrow> path \<Rightarrow> event \<Rightarrow> world \<Rightarrow> outcome" where
  "render_event x b r events_dir e w =
     (let event_dir = pjoin events_dir (event_id e)
      in bindE (mkdir event_dir w)
           (render x b ''event.html'' (event_context x r e) (pjoin event_dir ''index.html'')))"

definition render_events :: "externals \<Rightarrow> site_builder \<Rightarrow> repositories \<Rightarrow> world \<Rightarrow> outcome" where
  "render_events x b r w =
     (let events_dir = pjoin (out b) ''events''
      in bindE (mkdir events_dir (say ''Rendering events'' w))
           (foreachE (render_event x b r events_dir) (all_events r)))"

section \<open>Groups\<close>

text \<open>\<open>old_delta\<close>: fifty years of 365 days, in microseconds.\<close>

definition old_delta :: delta where
  "old_delta = 50 * 365 * 86400 * 1000000"

definition group_context :: "site_builder \<Rightarrow> group \<Rightarrow> event list \<Rightarrow> context_dict" where
  "group_context b g evs = [(''events'', CEvents evs), (''group'', CGroup g), (''now'', CInstant (now b))]"

definition render_group ::
  "externals \<Rightarrow> site_builder \<Rightarrow> group \<Rightarrow> event list \<Rightarrow> path \<Rightarrow> world \<Rightarrow> outcome" where
  "render_group x b g evs groups_dir w =
     (let group_dir = pjoin groups_dir (slug g)
      in bindE (mkdir group_dir (say (''Rendering group: '' @ name g) w))
           (render x b ''group.html'' (group_context b g evs) (pjoin group_dir ''index.html'')))"

definition group_events_context :: "group \<Rightarrow> event list \<Rightarrow> context_dict" where
  "group_events_context g evs = [(''events'', CEvents evs), (''group'', CGroup g)]"

definition render_group_events ::
  "externals \<Rightarrow> site_builder \<Rightarrow> group \<Rightarrow> event list \<Rightarrow> path \<Rightarrow> world \<Rightarrow> outcome" where
  "render_group_events x b g evs groups_dir w =
     (let events_dir = pjoin (pjoin groups_dir (slug g)) ''events''
      in bindE (mkdir events_dir (say (''Rendering group events: '' @ name g) w))
           (render x b ''group_events.html'' (group_events_context g evs) (pjoin events_dir ''index.html'')))"

text \<open>The body of the \<open>for group in group_repo.all()\<close> loop.\<close>

definition render_groups_body ::
  "externals \<Rightarrow> site_builder \<Rightarrow> repositories \<Rightarrow> path \<Rightarrow> group \<Rightarrow> world \<Rightarrow> outcome" where
  "render_groups_body x b r groups_dir g w =
     bindE (render_group x b g (filter_group r (slug g) (now b) None) groups_dir w)
       (render_group_events x b g (filter_group r (slug g) (now b) (Some old_delta)) groups_dir)"

definition render_groups :: "externals \<Rightarrow> site_builder \<Rightarrow> repositories \<Rightarrow> world \<Rightarrow> outcome" where
  "render_groups x b r w =
     (let groups_dir = pjoin (out b) ''groups''
      in bindE (mkdir groups_dir w) (foreachE (render_groups_body x b r groups_dir) (all_groups r)))"

section \<open>Hackathons\<close>

definition hackathon_context :: "hackathon \<Rightarrow> context_dict" where
  "hackathon_context h = [(''hackathon'', CHackathon h)]"

definition render_hackathon ::
  "externals \<Rightarrow> site_builder \<Rightarrow> hackathon \<Rightarrow> path \<Rightarrow> world \<Rightarrow> outcome" where
  "render_hackathon x b h hackathons_dir w =
     (let hackathon_dir = pjoin hackathons_dir (hackathon_slug h)
      in bindE (mkdir hackathon_dir (say (''Rendering hackathon: '' @ hackathon_name h) w))
           (render x b ''hackathon.html'' (hackathon_context h) (pjoin hackathon_dir ''index.html'')))"

definition render_hackathons :: "externals \<Rightarrow> site_builder \<Rightarrow> repositories \<Rightarrow> world \<Rightarrow> outcome" where
  "render_hackathons x b r w =
     (let hackathons_dir = pjoin (out b) ''hackathons''
      in bindE (mkdir hackathons_dir w)
           (foreachE (\<lambda>h. render_hackathon x b h hackathons_dir) (all_hackathons r)))"

section \<open>Palette\<close>

definition palette_context :: "repositories \<Rightarrow> context_dict" where
  "palette_context r = [(''groups'', CGroups (all_groups r)), (''hackathons'', CHackathons (all_hackathons r))]"

definition render_palette :: "externals \<Rightarrow> site_builder \<Rightarrow> repositories \<Rightarrow> world \<Rightarrow> outcome" where
  "render_palette x b r w =
     render x b ''palette.html'' (palette_context r) (pjoin (templates b) ''palette-rendered.html'') w"

section \<open>Static files\<close>

text \<open>One step of \<open>for dirpath, _, filenames in os.walk(self.public)\<close>: the
  directory relative to \<open>public\<close> is created under \<open>out\<close> and each of its files
  copied.\<close>

definition copy_static_dir :: "site_builder \<Rightarrow> path \<times> string list \<Rightarrow> world \<Rightarrow> outcome" where
  "copy_static_dir b d w =
     (case d of (rel, filenames) \<Rightarrow>
       (let outpath = out b @ rel
        in bindE (mkdir outpath w)
             (foreachE (\<lambda>filename. copyfile (pjoin (public b @ rel) filename) (pjoin outpath filename))
                filenames)))"

definition copy_static :: "site_builder \<Rightarrow> (path \<times> string list) list \<Rightarrow> world \<Rightarrow> outcome" where
  "copy_static b walked w =
     foreachE (copy_static_dir b) walked (say ''Copying static files from `public` to `out`'' w)"

text \<open>
  What \<open>os.walk(public)\<close> yields on file system \<open>m\<close>, top-down: the public
  directory first, each directory below it once and after its parent, with the
  names of exactly the plain files it holds, each once.
\<close>

definition os_walk_spec :: "filesystem \<Rightarrow> path \<Rightarrow> (path \<times> string list) list \<Rightarrow> bool" where
  "os_walk_spec m pub walked \<longleftrightarrow>
     walked \<noteq> [] \<and> fst (hd walked) = [] \<and> distinct (map fst walked) \<and>
     (\<forall>i < length walked. fst (walked ! i) \<noteq> [] \<longrightarrow>
        (\<exists>j < i. fst (walked ! j) = butlast (fst (walked ! i)))) \<and>
     (\<forall>(rel, fns) \<in> set walked.
        clean_path rel \<and> m (pub @ rel) = Some Dir \<and> distinct fns \<and>
        (\<forall>fn \<in> set fns. simple_name fn \<and> (\<exists>c. m (pub @ rel @ [fn]) = Some (File c)))) \<and>
     (\<forall>rel fn c. m (pub @ rel @ [fn]) = Some (File c) \<longrightarrow>
        (\<exists>fns. (rel, fns) \<in> set walked \<and> fn \<in> set fns))"

section \<open>Auxiliary predicates\<close>

text \<open>The entries \<open>copy_static\<close> may create or overwrite, and what it needs of
  the listing it walks.\<close>

definition static_targets :: "site_builder \<Rightarrow> (path \<times> string list) list \<Rightarrow> path set" where
  "static_targets b walked =
     {out b @ rel | rel fns. (rel, fns) \<in> set walked} \<union>
     {out b @ rel @ [fn] | rel fns fn. (rel, fns) \<in> set walked \<and> fn \<in> set fns}"

definition static_source_ok :: "site_builder \<Rightarrow> filesystem \<Rightarrow> (path \<times> string list) list \<Rightarrow> bool" where
  "static_source_ok b m walked \<longleftrightarrow>
     distinct (map fst walked) \<and>
     (\<forall>(rel, fns) \<in> set walked. clean_path rel \<and> distinct fns \<and> m (public b @ rel) = Some Dir \<and>
        (\<forall>fn \<in> set fns. simple_name fn \<and> is_file (m (public b @ rel @ [fn]))))"

text \<open>The conditions every layout lemma starts from: a well-formed file system
  in which a clean path is a directory.\<close>

definition dir_at :: "world \<Rightarrow> path \<Rightarrow> bool" where
  "dir_at w p \<longleftrightarrow> wf_fs (fs w) \<and> clean_path p \<and> fs w p = Some Dir"

text \<open>The two lines \<open>render_group\<close> and \<open>render_group_events\<close> print for a group.\<close>

definition group_log :: "group \<Rightarrow> string list" where
  "group_log g = [''Rendering group: '' @ name g, ''Rendering group events: '' @ name g]"

section \<open>Every pass is sound\<close>

lemma sound_render_index [sound_intros]: "sound (render_index x b r)"
  unfolding render_index_def [abs_def] by (intro sound_intros)

lemma sound_render_event [sound_intros]: "sound (render_event x b r d e)"
  unfolding render_event_def [abs_def] Let_def by (intro sound_intros)

lemma sound_render_events [sound_intros]: "sound (render_events x b r)"
  unfolding render_events_def [abs_def] Let_def by (intro sound_intros)

lemma sound_render_group [sound_intros]: "sound (render_group x b g evs d)"
  unfolding render_group_def [abs_def] Let_def by (intro sound_intros)

lemma sound_render_group_events [sound_intros]: "sound (render_group_events x b g evs d)"
  unfolding render_group_events_def [abs_def] Let_def by (intro sound_intros)

lemma sound_render_groups_body [sound_intros]: "sound (render_groups_body x b r d g)"
  unfolding render_groups_body_def [abs_def] by (intro sound_intros)

lemma sound_render_groups [sound_intros]: "sound (render_groups x b r)"
  unfolding render_groups_def [abs_def] Let_def by (intro sound_intros)

lemma sound_render_hackathon [sound_intros]: "sound (render_hackathon x b h d)"
  unfolding render_hackathon_def [abs_def] Let_def by (intro sound_intros)

lemma sound_render_hackathons [sound_intros]: "sound (render_hackathons x b r)"
  unfolding render_hackathons_def [abs_def] Let_def by (intro sound_intros)

lemma sound_render_palette [sound_intros]: "sound (render_palette x b r)"
  unfolding render_palette_def [abs_def] by (intro sound_intros)

lemma sound_copy_static_dir [sound_intros]: "sound (copy_static_dir b d)"
  unfolding copy_static_dir_def [abs_def] Let_def split_beta by (intro sound_intros)

lemma sound_copy_static [sound_intros]: "sound (copy_static b walked)"
  unfolding copy_static_def [abs_def] by (intro sound_intros)

section \<open>What each pass leaves behind\<close>

lemma dir_at_kept: "dir_at w p \<Longrightarrow> wf_fs (fs w') \<Longrightarrow> kept (fs w) (fs w') \<Longrightarrow> dir_at w' p"
  by (auto simp: dir_at_def kept_dir)

lemma dir_at_say [simp]: "dir_at (say msg w) p = dir_at w p"
  by (simp add: dir_at_def)

lemma dir_at_mkdir:
  "dir_at w p \<Longrightarrow> simple_name n \<Longrightarrow> mkdir (p @ [n]) w = Inr w' \<Longrightarrow> dir_at w' (p @ [n])"
  by (auto simp: dir_at_def intro: mkdir_wf mkdir_clean_dir)

lemma dir_at_render:
  "dir_at w p \<Longrightarrow> simple_name n \<Longrightarrow> render x b tname ctx (p @ [n]) w = Inr w' \<Longrightarrow>
   is_file (fs w' (p @ [n]))"
  by (auto simp: dir_at_def intro: render_clean_file)

lemma dir_at_sound: "dir_at w p \<Longrightarrow> sound f \<Longrightarrow> f w = Inr w' \<Longrightarrow> dir_at w' p"
  using sound_Inr dir_at_kept by (metis dir_at_def)

lemma file_sound: "wf_fs (fs w) \<Longrightarrow> is_file (fs w q) \<Longrightarrow> sound f \<Longrightarrow> f w = Inr w' \<Longrightarrow> is_file (fs w' q)"
  using sound_Inr kept_file by metis

lemma simple_names [simp]:
  "simple_name ''index.html''" "simple_name ''events''" "simple_name ''groups''"
  "simple_name ''hackathons''" "simple_name ''palette-rendered.html''"
  by (simp_all add: simple_name_def)

lemma render_index_file:
  "dir_at w (out b) \<Longrightarrow> render_index x b r w = Inr w' \<Longrightarrow> is_file (fs w' (out b @ [''index.html'']))"
  using dir_at_render [of "say ''Rendering index'' w" "out b" "''index.html''"]
  by (simp add: render_index_def)

lemma render_events_file:
  assumes "dir_at w (out b)" and "render_events x b r w = Inr w'"
    and "e \<in> set (all_events r)" and "simple_name (event_id e)"
  shows "is_file (fs w' (out b @ [''events'', event_id e, ''index.html'']))"
proof -
  from assms(2) obtain w1 where m: "mkdir (out b @ [''events'']) (say ''Rendering events'' w) = Inr w1"
    and loop: "foreachE (render_event x b r (out b @ [''events''])) (all_events r) w1 = Inr w'"
    by (auto simp: render_events_def Let_def bindE_eq_Inr_iff)
  have d1: "dir_at w1 (out b @ [''events''])"
    using dir_at_mkdir [OF _ _ m] assms(1) by simp
  from foreachE_mem [OF loop assms(3) sound_render_event] d1 obtain t t' where
    step: "render_event x b r (out b @ [''events'']) e t = Inr t'"
    and t: "wf_fs (fs t)" "kept (fs w1) (fs t)" and t': "kept (fs t') (fs w')"
    by (auto simp: dir_at_def)
  have dt: "dir_at t (out b @ [''events''])" using dir_at_kept [OF d1 t] .
  from step assms(4) obtain t1 where m2: "mkdir (out b @ [''events'', event_id e]) t = Inr t1"
    and r: "render x b ''event.html'' (event_context x r e) (out b @ [''events'', event_id e, ''index.html'']) t1 = Inr t'"
    by (auto simp: render_event_def Let_def bindE_eq_Inr_iff)
  have "dir_at t1 (out b @ [''events'', event_id e])"
    using dir_at_mkdir [OF dt assms(4)] m2 by simp
  from dir_at_render [OF this _ ] r have "is_file (fs t' (out b @ [''events'', event_id e, ''index.html'']))"
    by simp
  with t' show ?thesis by (rule kept_file)
qed

lemma render_group_file:
  assumes "dir_at w d" and "simple_name (slug g)" and "render_group x b g evs d w = Inr w'"
  shows "dir_at w' (d @ [slug g]) \<and> is_file (fs w' (d @ [slug g, ''index.html'']))"
proof -
  from assms(2,3) obtain w1 where m: "mkdir (d @ [slug g]) (say (''Rendering group: '' @ name g) w) = Inr w1"
    and r: "render x b ''group.html'' (group_context b g evs) (d @ [slug g, ''index.html'']) w1 = Inr w'"
    by (auto simp: render_group_def Let_def bindE_eq_Inr_iff)
  have d1: "dir_at w1 (d @ [slug g])" using dir_at_mkdir [OF _ assms(2) m] assms(1) by simp
  from dir_at_sound [OF d1 sound_render r] dir_at_render [OF d1 _ ] r show ?thesis by simp
qed

lemma render_group_events_file:
  assumes "dir_at w (d @ [slug g])" and "simple_name (slug g)"
    and "render_group_events x b g evs d w = Inr w'"
  shows "is_file (fs w' (d @ [slug g, ''events'', ''index.html'']))"
proof -
  from assms(2,3) obtain w1 where
    m: "mkdir (d @ [slug g, ''events'']) (say (''Rendering group events: '' @ name g) w) = Inr w1"
    and r: "render x b ''group_events.html'' (group_events_context g evs)
              (d @ [slug g, ''events'', ''index.html'']) w1 = Inr w'"
    by (auto simp: render_group_events_def Let_def bindE_eq_Inr_iff)
  have "dir_at w1 (d @ [slug g, ''events''])"
    using dir_at_mkdir [of "say (''Rendering group events: '' @ name g) w" "d @ [slug g]" "''events''"] m assms(1)
    by simp
  from dir_at_render [OF this _ ] r show ?thesis by simp
qed

lemma render_groups_files:
  assumes "dir_at w (out b)" and "render_groups x b r w = Inr w'"
    and "g \<in> set (all_groups r)" and "simple_name (slug g)"
  shows "is_file (fs w' (out b @ [''groups'', slug g, ''index.html''])) \<and>
         is_file (fs w' (out b @ [''groups'', slug g, ''events'', ''index.html'']))"
proof -
  let ?d = "out b @ [''groups'']"
  from assms(2) obtain w1 where m: "mkdir ?d w = Inr w1"
    and loop: "foreachE (render_groups_body x b r ?d) (all_groups r) w1 = Inr w'"
    by (auto simp: render_groups_def Let_def bindE_eq_Inr_iff)
  have d1: "dir_at w1 ?d" using dir_at_mkdir [OF assms(1) _ m] by simp
  from foreachE_mem [OF loop assms(3) sound_render_groups_body] d1 obtain t t' where
    step: "render_groups_body x b r ?d g t = Inr t'"
    and t: "wf_fs (fs t)" "kept (fs w1) (fs t)" and t': "kept (fs t') (fs w')"
    by (auto simp: dir_at_def)
  have dt: "dir_at t ?d" using dir_at_kept [OF d1 t] .
  from step obtain t2 where g1: "render_group x b g (filter_group r (slug g) (now b) None) ?d t = Inr t2"
    and g2: "render_group_events x b g (filter_group r (slug g) (now b) (Some old_delta)) ?d t2 = Inr t'"
    by (auto simp: render_groups_body_def bindE_eq_Inr_iff)
  from render_group_file [OF dt assms(4) g1] have
    d2: "dir_at t2 (?d @ [slug g])" and f1: "is_file (fs t2 (?d @ [slug g, ''index.html'']))" by simp_all
  have "is_file (fs t' (?d @ [slug g, ''index.html'']))"
    using file_sound [OF _ f1 sound_render_group_events g2] d2 by (simp add: dir_at_def)
  moreover have "is_file (fs t' (?d @ [slug g, ''events'', ''index.html'']))"
    using render_group_events_file [OF d2 assms(4) g2] .
  ultimately show ?thesis using t' kept_file by simp
qed

lemma render_hackathons_file:
  assumes "dir_at w (out b)" and "render_hackathons x b r w = Inr w'"
    and "h \<in> set (all_hackathons r)" and "simple_name (hackathon_slug h)"
  shows "is_file (fs w' (out b @ [''hackathons'', hackathon_slug h, ''index.html'']))"
proof -
  let ?d = "out b @ [''hackathons'']"
  from assms(2) obtain w1 where m: "mkdir ?d w = Inr w1"
    and loop: "foreachE (\<lambda>h. render_hackathon x b h ?d) (all_hackathons r) w1 = Inr w'"
    by (auto simp: render_hackathons_def Let_def bindE_eq_Inr_iff)
  have d1: "dir_at w1 ?d" using dir_at_mkdir [OF assms(1) _ m] by simp
  from foreachE_mem [OF loop assms(3) sound_render_hackathon] d1 obtain t t' where
    step: "render_hackathon x b h ?d t = Inr t'"
    and t: "wf_fs (fs t)" "kept (fs w1) (fs t)" and t': "kept (fs t') (fs w')"
    by (auto simp: dir_at_def)
  have dt: "dir_at t ?d" using dir_at_kept [OF d1 t] .
  from step assms(4) obtain t1 where m2: "mkdir (?d @ [hackathon_slug h]) (say (''Rendering hackathon: '' @ hackathon_name h) t) = Inr t1"
    and r: "render x b ''hackathon.html'' (hackathon_context h) (?d @ [hackathon_slug h, ''index.html'']) t1 = Inr t'"
    by (auto simp: render_hackathon_def Let_def bindE_eq_Inr_iff)
  have "dir_at t1 (?d @ [hackathon_slug h])" using dir_at_mkdir [OF _ assms(4) m2] dt by simp
  from dir_at_render [OF this _ ] r have "is_file (fs t' (?d @ [hackathon_slug h, ''index.html'']))" by simp
  with t' show ?thesis by (simp add: kept_file)
qed

lemma render_palette_file:
  "dir_at w (templates b) \<Longrightarrow> render_palette x b r w = Inr w' \<Longrightarrow>
   is_file (fs w' (templates b @ [''palette-rendered.html'']))"
  using dir_at_render [of w "templates b" "''palette-rendered.html''"]
  by (simp add: render_palette_def)

section \<open>Properties of the event pages\<close>

text \<open>C12. The event page resolves the group by \<open>find_by(group_slug)\<close> for every
  event, joint ones included: a joint event whose slug names a group is shown
  with that group on its own page, while the index shows it with none.\<close>

theorem event_page_group_joint:
  assumes "is_joint e" and "find_by (all_groups r) (group_slug e) = Some g"
  shows "map_of (event_context x r e) ''group'' = Some (CGroup g) \<and>
         resolve_group (all_groups r) e = None"
  using assms by (simp add: event_context_def opt_group_def resolve_group_def)

theorem event_page_group_joint_witness:
  "is_joint ex_joint \<and> find_by (all_groups ex_repos) (group_slug ex_joint) = Some ex_g1 \<and>
   map_of (event_context ex_externals ex_repos ex_joint) ''group'' = Some (CGroup ex_g1) \<and>
   resolve_group (all_groups ex_repos) ex_joint = None"
proof -
  have h: "is_joint ex_joint" "find_by (all_groups ex_repos) (group_slug ex_joint) = Some ex_g1"
    by (simp_all add: is_joint_def find_by_def ex_defs)
  from event_page_group_joint [OF h, of ex_externals] h show ?thesis by simp
qed

text \<open>C13. Event identities are joined onto \<open>events/\<close> unchecked: the page of
  an event whose id is \<open>..\<close> is written to \<open>index.html\<close> at the output root,
  over the index page.\<close>

theorem event_id_dotdot_overwrites_index:
  assumes "dir_at w (out b @ [''events''])" and "event_id e = ''..''"
    and "get_template (env b) (fs w) ''event.html'' = Inr src"
    and "render_event x b r (out b @ [''events'']) e w = Inr w'"
  shows "read_file (fs w') (out b @ [''index.html'']) =
           Inr (engine x (autoescape (env b)) src (event_context x r e))"
proof -
  have wf: "wf_fs (fs w)" and co: "clean_path (out b)" and ev: "fs w (out b @ [''events'']) = Some Dir"
    using assms(1) by (simp_all add: dir_at_def)
  have od: "fs w (out b) = Some Dir" using wf_fs_parent [OF wf ev] by simp
  have pj: "pjoin (out b @ [''events'']) ''..'' = out b @ [''events'', ''..'']"
    by (simp add: pjoin_def path_parts_def is_dot_def)
  have wk: "walk (fs w) [] (out b @ [''events'']) = Inr (out b @ [''events''])"
    using walk_clean [OF wf, of "out b @ [''events'']" "[]"] co ev by (simp add: simple_name_def)
  have l1: "locate (fs w) (out b @ [''events'', ''..'']) = Inr (out b)"
    using wk by (simp add: locate_def butlast_append)
  have m: "mkdir (out b @ [''events'', ''..'']) w = Inr w"
    using mkdir_existing [OF l1 od] .
  have l2: "locate (fs w) (out b @ [''events'', ''..'', ''index.html'']) = Inr (out b @ [''index.html''])"
  proof -
    have "walk (fs w) [] (out b @ [''events'', ''..'']) = Inr (out b)"
      using walk_append [of "fs w" "[]" "out b @ [''events'']" "[''..'']"] wk by simp
    then show ?thesis by (simp add: locate_def butlast_append is_dot_def)
  qed
  from assms(2,4) pj m have
    r: "render x b ''event.html'' (event_context x r e) (out b @ [''events'', ''..'', ''index.html'']) w = Inr w'"
    by (simp add: render_event_def pjoin_def path_parts_def is_dot_def)
  then have wr: "write_file (out b @ [''events'', ''..'', ''index.html''])
                   (engine x (autoescape (env b)) src (event_context x r e)) w = Inr w'"
    using assms(3) by (simp add: render_def)
  from write_file_read [OF wr] have "read_file (fs w') (out b @ [''events'', ''..'', ''index.html'']) =
      Inr (engine x (autoescape (env b)) src (event_context x r e))" .
  moreover from write_file_Inr [OF wr] l2 have
    "locate (fs w') (out b @ [''index.html'']) = locate (fs w') (out b @ [''events'', ''..'', ''index.html''])"
    by (auto simp: locate_upd locate_clean [OF wf co od] dest: locate_upd)
  ultimately show ?thesis by (simp add: read_file_def)
qed

theorem event_id_dotdot_overwrites_index_witness:
  "\<exists>w'. render_event ex_externals ex_builder ex_repos [''out'', ''events''] ex_dotdot ex_world_events = Inr w' \<and>
        dir_at ex_world_events [''out'', ''events''] \<and> event_id ex_dotdot = ''..'' \<and>
        get_template (env ex_builder) (fs ex_world_events) ''event.html'' = Inr ''EVENT'' \<and>
        read_file (fs w') [''out'', ''index.html''] = Inr ''EVENT''"
proof -
  have ob: "out ex_builder = [''out'']" by (simp add: ex_defs)
  have "\<exists>w'. render_event ex_externals ex_builder ex_repos [''out'', ''events''] ex_dotdot ex_world_events = Inr w'"
    by (simp add: render_event_def render_def get_template_def ex_defs step_simps)
  then obtain w' where r: "render_event ex_externals ex_builder ex_repos [''out'', ''events''] ex_dotdot ex_world_events = Inr w'" ..
  have h: "dir_at ex_world_events [''out'', ''events'']" "event_id ex_dotdot = ''..''"
    "get_template (env ex_builder) (fs ex_world_events) ''event.html'' = Inr ''EVENT''"
    by (simp_all add: dir_at_def wf_fs_def clean_path_def simple_name_def get_template_def ex_defs step_simps)
  from event_id_dotdot_overwrites_index [where w = ex_world_events and b = ex_builder and e = ex_dotdot and x = ex_externals and src = "''EVENT''" and r = ex_repos and w' = w'] r h ob
  have "read_file (fs w') [''out'', ''index.html''] = Inr ''EVENT''" by (simp add: ex_defs)
  with r h show ?thesis by blast
qed

section \<open>What each pass prints\<close>

lemma render_index_log: "render_index x b r w = Inr w' \<Longrightarrow> stdout w' = stdout w @ [''Rendering index'']"
  by (auto simp: render_index_def dest!: render_stdout)

lemma render_event_log: "render_event x b r d e w = Inr w' \<Longrightarrow> stdout w' = stdout w"
  by (auto simp: render_event_def Let_def bindE_eq_Inr_iff dest!: render_stdout mkdir_stdout)

lemma render_events_log:
  assumes "render_events x b r w = Inr w'"
  shows "stdout w' = stdout w @ [''Rendering events'']"
proof -
  from assms obtain w1 where m: "mkdir (out b @ [''events'']) (say ''Rendering events'' w) = Inr w1"
    and l: "foreachE (render_event x b r (out b @ [''events''])) (all_events r) w1 = Inr w'"
    by (auto simp: render_events_def Let_def bindE_eq_Inr_iff)
  from foreachE_quiet [OF l render_event_log] mkdir_stdout [OF m] show ?thesis by simp
qed

lemma render_groups_body_log: "render_groups_body x b r d g w = Inr w' \<Longrightarrow> stdout w' = stdout w @ group_log g"
  by (auto simp: render_groups_body_def render_group_def render_group_events_def group_log_def Let_def
           bindE_eq_Inr_iff dest!: render_stdout mkdir_stdout)

lemma render_groups_log:
  assumes "render_groups x b r w = Inr w'"
  shows "stdout w' = stdout w @ concat (map group_log (all_groups r))"
proof -
  from assms obtain w1 where m: "mkdir (out b @ [''groups'']) w = Inr w1"
    and l: "foreachE (render_groups_body x b r (out b @ [''groups''])) (all_groups r) w1 = Inr w'"
    by (auto simp: render_groups_def Let_def bindE_eq_Inr_iff)
  from foreachE_trace [where obs = stdout, OF l render_groups_body_log] mkdir_stdout [OF m]
  show ?thesis by simp
qed

lemma render_hackathon_log:
  "render_hackathon x b h d w = Inr w' \<Longrightarrow>
   stdout w' = stdout w @ [''Rendering hackathon: '' @ hackathon_name h]"
  by (auto simp: render_hackathon_def Let_def bindE_eq_Inr_iff dest!: render_stdout mkdir_stdout)

lemma render_hackathons_log:
  assumes "render_hackathons x b r w = Inr w'"
  shows "stdout w' = stdout w @ map (\<lambda>h. ''Rendering hackathon: '' @ hackathon_name h) (all_hackathons r)"
proof -
  from assms obtain w1 where m: "mkdir (out b @ [''hackathons'']) w = Inr w1"
    and l: "foreachE (\<lambda>h. render_hackathon x b h (out b @ [''hackathons''])) (all_hackathons r) w1 = Inr w'"
    by (auto simp: render_hackathons_def Let_def bindE_eq_Inr_iff)
  from foreachE_trace [where obs = stdout, OF l render_hackathon_log] mkdir_stdout [OF m]
  show ?thesis by (simp add: map_concat)
qed

lemma render_palette_log: "render_palette x b r w = Inr w' \<Longrightarrow> stdout w' = stdout w"
  by (auto simp: render_palette_def dest!: render_stdout)

lemma copy_static_dir_log: "copy_static_dir b d w = Inr w' \<Longrightarrow> stdout w' = stdout w"
proof -
  assume ok: "copy_static_dir b d w = Inr w'"
  obtain rel fns where d: "d = (rel, fns)" by fastforce
  with ok obtain w1 where m: "mkdir (out b @ rel) w = Inr w1"
    and l: "foreachE (\<lambda>fn. copyfile (pjoin (public b @ rel) fn) (pjoin (out b @ rel) fn)) fns w1 = Inr w'"
    by (auto simp: copy_static_dir_def Let_def bindE_eq_Inr_iff)
  from foreachE_quiet [OF l copyfile_stdout] mkdir_stdout [OF m] show ?thesis by simp
qed

lemma copy_static_log:
  "copy_static b walked w = Inr w' \<Longrightarrow> stdout w' = stdout w @ [''Copying static files from `public` to `out`'']"
  unfolding copy_static_def by (drule foreachE_quiet) (auto dest: copy_static_dir_log)

section \<open>Contents of the event pages\<close>

text \<open>The shape the event and the hackathon loops share: for each item, the
  directory named by its key is made below \<open>d\<close>, and a template is rendered into
  its \<open>index.html\<close>.\<close>

lemma page_step:
  assumes m: "mkdir (d @ [k]) t = Inr t1"
    and rn: "render x b tpl ctx (d @ [k, ''index.html'']) t1 = Inr t'"
    and d: "dir_at t d" and kn: "simple_name k" and cl: "clean_path (loader (env b))"
    and par: "d \<parallel> loader (env b)" and tn: "simple_name tpl"
    and tp: "get_template (env b) (fs t) tpl = Inr src"
  shows "(\<forall>p. \<not> prefix (d @ [k]) p \<longrightarrow> fs t' p = fs t p) \<and>
         fs t' (d @ [k, ''index.html'']) = Some (File (engine x (autoescape (env b)) src ctx))"
proof -
  have cd: "clean_path (d @ [k])" and ci: "clean_path (d @ [k, ''index.html''])"
    using d kn by (simp_all add: dir_at_def simple_name_def)
  from mkdir_clean_Inr [OF m cd] have "fs t1 = (fs t)(d @ [k] \<mapsto> Dir)" by blast
  then have fr1: "\<forall>p. \<not> prefix (d @ [k]) p \<longrightarrow> fs t1 p = fs t p" by auto
  have dp: "d @ [k] \<parallel> loader (env b)" using parallel_append [OF par, of "[k]" "[]"] by simp
  have "get_template (env b) (fs t1) tpl = Inr src" using get_template_agree [OF cl tn dp fr1] tp by simp
  with render_Inr [OF rn] write_file_clean_Inr ci
  have "fs t' = (fs t1)(d @ [k, ''index.html''] \<mapsto> File (engine x (autoescape (env b)) src ctx))"
    by fastforce
  with fr1 show ?thesis by auto
qed

text \<open>The loop in general: the items' keys need not be distinct, and the page
  of a key holds the render of the last item with that key, since a later
  render of the same key overwrites the page.\<close>

lemma page_loop_last:
  assumes loop: "foreachE f xs w = Inr w'" and d: "dir_at w d"
    and unf: "\<And>y t. y \<in> set xs \<Longrightarrow>
      f y t = bindE (mkdir (d @ [k y]) (g y t)) (render x b tpl (ctx y) (d @ [k y, ''index.html'']))"
    and gfs: "\<And>y t. fs (g y t) = fs t" and snd: "\<And>y. sound (f y)"
    and ks: "\<forall>y \<in> set xs. simple_name (k y)"
    and cl: "clean_path (loader (env b))" and par: "d \<parallel> loader (env b)" and tn: "simple_name tpl"
    and tp: "get_template (env b) (fs w) tpl = Inr src"
  shows "dir_at w' d \<and> get_template (env b) (fs w') tpl = Inr src \<and>
         (\<forall>p. (\<forall>y \<in> set xs. \<not> prefix (d @ [k y]) p) \<longrightarrow> fs w' p = fs w p) \<and>
         (\<forall>y \<in> set xs. fs w' (d @ [k y, ''index.html'']) =
            Some (File (engine x (autoescape (env b)) src (ctx (last (filter (\<lambda>z. k z = k y) xs))))))"
  using loop unf ks
proof (induction xs arbitrary: w' rule: rev_induct)
  case Nil
  then show ?case using d tp by simp
next
  case (snoc y xs)
  from snoc.prems(1) obtain w1 where l1: "foreachE f xs w = Inr w1" and fy: "f y w1 = Inr w'"
    by (auto simp: foreachE_append bindE_eq_Inr_iff)
  have u1: "\<And>z t. z \<in> set xs \<Longrightarrow>
      f z t = bindE (mkdir (d @ [k z]) (g z t)) (render x b tpl (ctx z) (d @ [k z, ''index.html'']))"
    using snoc.prems(2) by simp
  have k1: "\<forall>z \<in> set xs. simple_name (k z)" using snoc.prems(3) by simp
  from snoc.IH [OF l1 u1 k1] have d1: "dir_at w1 d" and t1: "get_template (env b) (fs w1) tpl = Inr src"
    and fr1: "\<forall>p. (\<forall>z \<in> set xs. \<not> prefix (d @ [k z]) p) \<longrightarrow> fs w1 p = fs w p"
    and pg1: "\<forall>z \<in> set xs. fs w1 (d @ [k z, ''index.html'']) =
      Some (File (engine x (autoescape (env b)) src (ctx (last (filter (\<lambda>u. k u = k z) xs)))))"
    by blast+
  from fy snoc.prems(2) [of y w1] obtain t1 where m: "mkdir (d @ [k y]) (g y w1) = Inr t1"
    and rn: "render x b tpl (ctx y) (d @ [k y, ''index.html'']) t1 = Inr w'"
    by (auto simp: bindE_eq_Inr_iff)
  have dg: "dir_at (g y w1) d" and tg: "get_template (env b) (fs (g y w1)) tpl = Inr src"
    using d1 t1 gfs by (simp_all add: dir_at_def)
  from page_step [OF m rn dg _ cl par tn tg] snoc.prems(3)
  have frY: "\<forall>p. \<not> prefix (d @ [k y]) p \<longrightarrow> fs w' p = fs w1 p"
    and pgY: "fs w' (d @ [k y, ''index.html'']) = Some (File (engine x (autoescape (env b)) src (ctx y)))"
    by (simp_all add: gfs)
  have fd: "\<forall>p. \<not> prefix d p \<longrightarrow> fs w' p = fs w1 p" using frY not_prefix_append by blast
  have "dir_at w' d" using dir_at_sound [OF d1 snd fy] .
  moreover have "get_template (env b) (fs w') tpl = Inr src" using get_template_agree [OF cl tn par fd] t1 by simp
  moreover have "\<forall>p. (\<forall>z \<in> set (xs @ [y]). \<not> prefix (d @ [k z]) p) \<longrightarrow> fs w' p = fs w p"
    using frY fr1 by simp
  moreover have "fs w' (d @ [k z, ''index.html'']) =
      Some (File (engine x (autoescape (env b)) src (ctx (last (filter (\<lambda>u. k u = k z) (xs @ [y]))))))"
    if z: "z \<in> set (xs @ [y])" for z
  proof (cases "k z = k y")
    case True
    with pgY show ?thesis by simp
  next
    case False
    then have "\<not> prefix (d @ [k y]) (d @ [k z, ''index.html''])" by (auto simp: prefix_def)
    with frY pg1 False z show ?thesis by auto
  qed
  ultimately show ?case by blast
qed

lemma filter_key_single: "distinct (map k xs) \<Longrightarrow> y \<in> set xs \<Longrightarrow> filter (\<lambda>z. k z = k y) xs = [y]"
  by (induction xs) (auto simp: filter_empty_conv image_iff)

text \<open>A pass that makes \<open>out/nm\<close> and then runs such a loop below it.\<close>

lemma pass_pages_last:
  assumes ok: "bindE (mkdir (out b @ [nm]) w0) (foreachE f xs) = Inr w'" and w0: "fs w0 = fs w"
    and d: "dir_at w (out b)" and nm: "simple_name nm"
    and unf: "\<And>y t. y \<in> set xs \<Longrightarrow>
      f y t = bindE (mkdir (out b @ [nm, k y]) (g y t)) (render x b tpl (ctx y) (out b @ [nm, k y, ''index.html'']))"
    and gfs: "\<And>y t. fs (g y t) = fs t" and snd: "\<And>y. sound (f y)"
    and ks: "\<forall>y \<in> set xs. simple_name (k y)"
    and cl: "clean_path (loader (env b))" and par: "out b \<parallel> loader (env b)" and tn: "simple_name tpl"
    and tp: "get_template (env b) (fs w) tpl = Inr src"
  shows "(\<forall>p. \<not> prefix (out b @ [nm]) p \<longrightarrow> fs w' p = fs w p) \<and>
         (\<forall>y \<in> set xs. fs w' (out b @ [nm, k y, ''index.html'']) =
            Some (File (engine x (autoescape (env b)) src (ctx (last (filter (\<lambda>z. k z = k y) xs))))))"
proof -
  let ?d = "out b @ [nm]"
  from ok obtain w1 where m: "mkdir ?d w0 = Inr w1" and loop: "foreachE f xs w1 = Inr w'"
    by (auto simp: bindE_eq_Inr_iff)
  have d0: "dir_at w0 (out b)" using d w0 by (simp add: dir_at_def)
  have d1: "dir_at w1 ?d" using dir_at_mkdir [OF d0 nm m] .
  from mkdir_clean_Inr [OF m] d1 have "fs w1 = (fs w0)(?d \<mapsto> Dir)" by (simp add: dir_at_def)
  then have fr1: "\<forall>p. \<not> prefix ?d p \<longrightarrow> fs w1 p = fs w p" using w0 by auto
  have dp: "?d \<parallel> loader (env b)" using parallel_append [OF par, of "[nm]" "[]"] by simp
  have "get_template (env b) (fs w1) tpl = Inr src" using get_template_agree [OF cl tn dp fr1] tp by simp
  from page_loop_last [OF loop d1 _ gfs snd ks cl dp tn this] unf
  have fr2: "\<forall>p. (\<forall>y \<in> set xs. \<not> prefix (?d @ [k y]) p) \<longrightarrow> fs w' p = fs w1 p"
    and pages: "\<forall>y \<in> set xs. fs w' (out b @ [nm, k y, ''index.html'']) =
              Some (File (engine x (autoescape (env b)) src (ctx (last (filter (\<lambda>z. k z = k y) xs)))))"
    by simp_all
  have "\<forall>p. \<not> prefix ?d p \<longrightarrow> fs w' p = fs w p" using fr1 fr2 not_prefix_append by metis
  with pages show ?thesis by simp
qed

lemma pass_pages:
  assumes ok: "bindE (mkdir (out b @ [nm]) w0) (foreachE f xs) = Inr w'" and w0: "fs w0 = fs w"
    and d: "dir_at w (out b)" and nm: "simple_name nm"
    and unf: "\<And>y t. y \<in> set xs \<Longrightarrow>
      f y t = bindE (mkdir (out b @ [nm, k y]) (g y t)) (render x b tpl (ctx y) (out b @ [nm, k y, ''index.html'']))"
    and gfs: "\<And>y t. fs (g y t) = fs t" and snd: "\<And>y. sound (f y)"
    and ks: "\<forall>y \<in> set xs. simple_name (k y)" and dist: "distinct (map k xs)"
    and cl: "clean_path (loader (env b))" and par: "out b \<parallel> loader (env b)" and tn: "simple_name tpl"
    and tp: "get_template (env b) (fs w) tpl = Inr src"
  shows "(\<forall>p. \<not> prefix (out b @ [nm]) p \<longrightarrow> fs w' p = fs w p) \<and>
         (\<forall>y \<in> set xs. fs w' (out b @ [nm, k y, ''index.html'']) =
            Some (File (engine x (autoescape (env b)) src (ctx y))))"
  using pass_pages_last [OF ok w0 d nm unf gfs snd ks cl par tn tp] filter_key_single [OF dist] by simp

text \<open>C16. With event ids that are distinct plain path components and a
  template directory outside the output tree, a completed event pass leaves,
  for every event, \<open>events/<id>/index.html\<close> holding the event template
  rendered against that event's own context, and changes nothing outside
  \<open>events/\<close>.\<close>

theorem render_events_pages:
  assumes ok: "render_events x b r w = Inr w'" and d: "dir_at w (out b)"
    and ids: "\<forall>e \<in> set (all_events r). simple_name (event_id e)"
    and dist: "distinct (map event_id (all_events r))"
    and cl: "clean_path (loader (env b))" and par: "out b \<parallel> loader (env b)"
    and tpl: "get_template (env b) (fs w) ''event.html'' = Inr src"
  shows "(\<forall>p. \<not> prefix (out b @ [''events'']) p \<longrightarrow> fs w' p = fs w p) \<and>
         (\<forall>e \<in> set (all_events r). fs w' (out b @ [''events'', event_id e, ''index.html'']) =
            Some (File (engine x (autoescape (env b)) src (event_context x r e))))"
proof (rule pass_pages [where g = "\<lambda>e t. t" and k = event_id])
  show "bindE (mkdir (out b @ [''events'']) (say ''Rendering events'' w))
      (foreachE (render_event x b r (out b @ [''events''])) (all_events r)) = Inr w'"
    using ok by (simp add: render_events_def Let_def simple_name_def)
  show "render_event x b r (out b @ [''events'']) e t =
      bindE (mkdir (out b @ [''events'', event_id e]) t)
        (render x b ''event.html'' (event_context x r e) (out b @ [''events'', event_id e, ''index.html'']))"
    if "e \<in> set (all_events r)" for e t
    using ids that by (simp add: render_event_def Let_def)
qed (use d ids dist cl par tpl sound_render_event in \<open>simp_all add: simple_name_def\<close>)

theorem render_events_pages_witness:
  "\<exists>w'. render_events ex_externals ex_builder ex_repos ex_world_out = Inr w' \<and>
     dir_at ex_world_out (out ex_builder) \<and>
     (\<forall>e \<in> set (all_events ex_repos). simple_name (event_id e)) \<and>
     distinct (map event_id (all_events ex_repos)) \<and>
     clean_path (loader (env ex_builder)) \<and> out ex_builder \<parallel> loader (env ex_builder) \<and>
     get_template (env ex_builder) (fs ex_world_out) ''event.html'' = Inr ''EVENT'' \<and>
     fs w' [''out'', ''hackathons''] = None \<and>
     fs w' [''out'', ''events'', ''e2'', ''index.html''] = Some (File ''EVENT'')"
proof -
  have "\<exists>w'. render_events ex_externals ex_builder ex_repos ex_world_out = Inr w'"
    by (simp add: render_events_def render_event_def render_def get_template_def ex_defs step_simps)
  then obtain w' where ok: "render_events ex_externals ex_builder ex_repos ex_world_out = Inr w'" ..
  have h: "dir_at ex_world_out (out ex_builder)"
    "\<forall>e \<in> set (all_events ex_repos). simple_name (event_id e)"
    "distinct (map event_id (all_events ex_repos))"
    "clean_path (loader (env ex_builder))" "out ex_builder \<parallel> loader (env ex_builder)"
    "get_template (env ex_builder) (fs ex_world_out) ''event.html'' = Inr ''EVENT''"
    by (simp_all add: dir_at_def wf_fs_def clean_path_def simple_name_def parallel_def
        get_template_def ex_defs step_simps)
  have ids: "out ex_builder = [''out'']" "ex_future \<in> set (all_events ex_repos)" "event_id ex_future = ''e2''"
    by (simp_all add: ex_defs)
  from render_events_pages [OF ok h] ids have
    "fs w' [''out'', ''hackathons''] = fs ex_world_out [''out'', ''hackathons'']"
    "fs w' [''out'', ''events'', ''e2'', ''index.html''] =
       Some (File (engine ex_externals (autoescape (env ex_builder)) ''EVENT'' (event_context ex_externals ex_repos ex_future)))"
    by auto
  then have "fs w' [''out'', ''hackathons''] = None"
    "fs w' [''out'', ''events'', ''e2'', ''index.html''] = Some (File ''EVENT'')"
    by (simp_all add: ex_defs)
  with ok h show ?thesis by blast
qed

text \<open>C29. Event identities need not be distinct, and nothing checks them:
  where several events share an identity, the events pass renders each in
  turn into the same directory, and the page left is the one of the last such
  event in \<open>all()\<close>; the earlier events have no page.\<close>

theorem render_events_last_wins:
  assumes ok: "render_events x b r w = Inr w'" and d: "dir_at w (out b)"
    and ids: "\<forall>e \<in> set (all_events r). simple_name (event_id e)"
    and cl: "clean_path (loader (env b))" and par: "out b \<parallel> loader (env b)"
    and tpl: "get_template (env b) (fs w) ''event.html'' = Inr src"
  shows "\<forall>e \<in> set (all_events r). fs w' (out b @ [''events'', event_id e, ''index.html'']) =
     Some (File (engine x (autoescape (env b)) src
       (event_context x r (last (filter (\<lambda>e'. event_id e' = event_id e) (all_events r))))))"
proof (rule pass_pages_last [where g = "\<lambda>e t. t" and k = event_id, THEN conjunct2])
  show "bindE (mkdir (out b @ [''events'']) (say ''Rendering events'' w))
      (foreachE (render_event x b r (out b @ [''events''])) (all_events r)) = Inr w'"
    using ok by (simp add: render_events_def Let_def simple_name_def)
  show "render_event x b r (out b @ [''events'']) e t =
      bindE (mkdir (out b @ [''events'', event_id e]) t)
        (render x b ''event.html'' (event_context x r e) (out b @ [''events'', event_id e, ''index.html'']))"
    if "e \<in> set (all_events r)" for e t
    using ids that by (simp add: render_event_def Let_def)
qed (use d ids cl par tpl sound_render_event in \<open>simp_all add: simple_name_def\<close>)

theorem render_events_last_wins_witness:
  "\<exists>w'. render_events ex_externals_desc ex_builder ex_repos_dup ex_world_out = Inr w' \<and>
     dir_at ex_world_out (out ex_builder) \<and>
     (\<forall>e \<in> set (all_events ex_repos_dup). simple_name (event_id e)) \<and>
     clean_path (loader (env ex_builder)) \<and> out ex_builder \<parallel> loader (env ex_builder) \<and>
     get_template (env ex_builder) (fs ex_world_out) ''event.html'' = Inr ''EVENT'' \<and>
     fs w' [''out'', ''events'', ''e1'', ''index.html''] = Some (File ''EVENT<div>second</div>'')"
proof -
  have "\<exists>w'. render_events ex_externals_desc ex_builder ex_repos_dup ex_world_out = Inr w'"
    by (simp add: render_events_def render_event_def render_def get_template_def ex_defs step_simps)
  then obtain w' where ok: "render_events ex_externals_desc ex_builder ex_repos_dup ex_world_out = Inr w'" ..
  have h: "dir_at ex_world_out (out ex_builder)"
    "\<forall>e \<in> set (all_events ex_repos_dup). simple_name (event_id e)"
    "clean_path (loader (env ex_builder))" "out ex_builder \<parallel> loader (env ex_builder)"
    "get_template (env ex_builder) (fs ex_world_out) ''event.html'' = Inr ''EVENT''"
    by (simp_all add: dir_at_def wf_fs_def clean_path_def simple_name_def parallel_def
        get_template_def ex_defs step_simps)
  have ids: "out ex_builder = [''out'']" "ex_past \<in> set (all_events ex_repos_dup)" "event_id ex_past = ''e1''"
    by (simp_all add: ex_defs)
  from render_events_last_wins [OF ok h] ids have
    "fs w' [''out'', ''events'', ''e1'', ''index.html''] =
       Some (File (engine ex_externals_desc (autoescape (env ex_builder)) ''EVENT''
         (event_context ex_externals_desc ex_repos_dup ex_dup)))"
    by (simp add: ex_defs)
  then have "fs w' [''out'', ''events'', ''e1'', ''index.html''] = Some (File ''EVENT<div>second</div>'')"
    by (simp add: ex_defs event_context_def)
  with ok h show ?thesis by blast
qed

section \<open>Contents of the group pages\<close>

lemma render_groups_body_step:
  assumes ok: "render_groups_body x b r d g w = Inr w'" and dw: "dir_at w d" and sg: "simple_name (slug g)"
    and cl: "clean_path (loader (env b))" and par: "d \<parallel> loader (env b)"
    and t1: "get_template (env b) (fs w) ''group.html'' = Inr src1"
    and t2: "get_template (env b) (fs w) ''group_events.html'' = Inr src2"
  shows "(\<forall>p. \<not> prefix (d @ [slug g]) p \<longrightarrow> fs w' p = fs w p) \<and>
         fs w' (d @ [slug g, ''index.html'']) =
           Some (File (engine x (autoescape (env b)) src1
                         (group_context b g (filter_group r (slug g) (now b) None)))) \<and>
         fs w' (d @ [slug g, ''events'', ''index.html'']) =
           Some (File (engine x (autoescape (env b)) src2
                         (group_events_context g (filter_group r (slug g) (now b) (Some old_delta)))))"
proof -
  let ?D = "d @ [slug g]"
  from ok sg obtain w1 w2 w3 where
    m1: "mkdir ?D (say (''Rendering group: '' @ name g) w) = Inr w1" and
    r1: "render x b ''group.html'' (group_context b g (filter_group r (slug g) (now b) None))
           (?D @ [''index.html'']) w1 = Inr w2" and
    m2: "mkdir (?D @ [''events'']) (say (''Rendering group events: '' @ name g) w2) = Inr w3" and
    r2: "render x b ''group_events.html''
           (group_events_context g (filter_group r (slug g) (now b) (Some old_delta)))
           (?D @ [''events'', ''index.html'']) w3 = Inr w'"
    by (auto simp: render_groups_body_def render_group_def render_group_events_def Let_def bindE_eq_Inr_iff)
  have cD: "clean_path ?D" using dw sg by (simp add: dir_at_def)
  have pD: "?D \<parallel> loader (env b)" using parallel_append [OF par, of "[slug g]" "[]"] by simp
  have sn: "simple_name ''group.html''" "simple_name ''group_events.html''" by (simp_all add: simple_name_def)
  from mkdir_clean_Inr [OF m1 cD] have f1: "fs w1 = (fs w)(?D \<mapsto> Dir)" by simp
  then have "\<forall>p. \<not> prefix ?D p \<longrightarrow> fs w1 p = fs w p" by auto
  from get_template_agree [OF cl sn(1) pD this] t1 have "get_template (env b) (fs w1) ''group.html'' = Inr src1" by simp
  from render_clean_Inr [OF r1 _ this] cD have
    f2: "fs w2 = (fs w1)(?D @ [''index.html''] \<mapsto> File (engine x (autoescape (env b)) src1
                    (group_context b g (filter_group r (slug g) (now b) None))))" by simp
  from mkdir_clean_Inr [OF m2] cD have f3: "fs w3 = (fs w2)(?D @ [''events''] \<mapsto> Dir)" by simp
  from f1 f2 f3 have "\<forall>p. \<not> prefix ?D p \<longrightarrow> fs w3 p = fs w p" by auto
  from get_template_agree [OF cl sn(2) pD this] t2
  have "get_template (env b) (fs w3) ''group_events.html'' = Inr src2" by simp
  from render_clean_Inr [OF r2 _ this] cD have
    f4: "fs w' = (fs w3)(?D @ [''events'', ''index.html''] \<mapsto> File (engine x (autoescape (env b)) src2
                    (group_events_context g (filter_group r (slug g) (now b) (Some old_delta)))))" by simp
  from f1 f2 f3 f4 show ?thesis by auto
qed

text \<open>C18. With group slugs that are distinct plain path components and the
  template directory outside the output tree, a completed group pass leaves,
  for every group, \<open>groups/<slug>/index.html\<close> rendered from the events
  \<open>filter_group\<close> returns in its default window and
  \<open>groups/<slug>/events/index.html\<close> rendered from the events of the last
  fifty years, and changes nothing outside \<open>groups/\<close>.\<close>

theorem render_groups_pages:
  assumes ok: "render_groups x b r w = Inr w'" and d: "dir_at w (out b)"
    and sl: "\<forall>g \<in> set (all_groups r). simple_name (slug g)"
    and dist: "distinct (map slug (all_groups r))"
    and cl: "clean_path (loader (env b))" and par: "out b \<parallel> loader (env b)"
    and t1: "get_template (env b) (fs w) ''group.html'' = Inr src1"
    and t2: "get_template (env b) (fs w) ''group_events.html'' = Inr src2"
  shows "(\<forall>p. \<not> prefix (out b @ [''groups'']) p \<longrightarrow> fs w' p = fs w p) \<and>
    (\<forall>g \<in> set (all_groups r).
       fs w' (out b @ [''groups'', slug g, ''index.html'']) =
         Some (File (engine x (autoescape (env b)) src1
                       (group_context b g (filter_group r (slug g) (now b) None)))) \<and>
       fs w' (out b @ [''groups'', slug g, ''events'', ''index.html'']) =
         Some (File (engine x (autoescape (env b)) src2
                       (group_events_context g (filter_group r (slug g) (now b) (Some old_delta))))))"
proof -
  let ?G = "out b @ [''groups'']"
  let ?Q = "\<lambda>t. dir_at t ?G \<and> get_template (env b) (fs t) ''group.html'' = Inr src1 \<and>
                get_template (env b) (fs t) ''group_events.html'' = Inr src2"
  let ?R = "\<lambda>g m. m (?G @ [slug g, ''index.html'']) =
         Some (File (engine x (autoescape (env b)) src1
                       (group_context b g (filter_group r (slug g) (now b) None)))) \<and>
       m (?G @ [slug g, ''events'', ''index.html'']) =
         Some (File (engine x (autoescape (env b)) src2
                       (group_events_context g (filter_group r (slug g) (now b) (Some old_delta)))))"
  from ok obtain w1 where m: "mkdir ?G w = Inr w1"
    and loop: "foreachE (render_groups_body x b r ?G) (all_groups r) w1 = Inr w'"
    by (auto simp: render_groups_def Let_def bindE_eq_Inr_iff)
  have sn: "simple_name ''group.html''" "simple_name ''group_events.html''" by (simp_all add: simple_name_def)
  have pG: "?G \<parallel> loader (env b)" using parallel_append [OF par, of "[''groups'']" "[]"] by simp
  have d1: "dir_at w1 ?G" using dir_at_mkdir [OF d _ m] by simp
  from mkdir_clean_Inr [OF m] d1 have "fs w1 = (fs w)(?G \<mapsto> Dir)" by (simp add: dir_at_def)
  then have fr1: "\<forall>p. \<not> prefix ?G p \<longrightarrow> fs w1 p = fs w p" by auto
  have q1: "?Q w1" using d1 get_template_agree [OF cl _ pG fr1] t1 t2 sn by simp
  have dk: "distinct (map (\<lambda>g. ?G @ [slug g]) (all_groups r))"
    using dist distinct_map_snoc [of ?G slug "all_groups r"] by simp
  have pk: "\<forall>g \<in> set (all_groups r). \<forall>h \<in> set (all_groups r).
      ?G @ [slug g] \<noteq> ?G @ [slug h] \<longrightarrow> ?G @ [slug g] \<parallel> ?G @ [slug h]"
    by (auto intro: parallel_snoc)
  have st: "?Q t' \<and> (\<forall>p. \<not> prefix (?G @ [slug g]) p \<longrightarrow> fs t' p = fs t p) \<and> ?R g (fs t')"
    if "g \<in> set (all_groups r)" "?Q t" "render_groups_body x b r ?G g t = Inr t'" for g t t'
  proof -
    from render_groups_body_step [OF that(3) _ _ cl pG] that(1,2) sl have
      fr: "\<forall>p. \<not> prefix (?G @ [slug g]) p \<longrightarrow> fs t' p = fs t p" and pg: "?R g (fs t')" by auto
    have fg: "\<forall>p. \<not> prefix ?G p \<longrightarrow> fs t' p = fs t p" using fr not_prefix_append by blast
    have "?Q t'" using that(2) dir_at_sound [OF _ sound_render_groups_body that(3)]
      get_template_agree [OF cl sn(1) pG fg] get_template_agree [OF cl sn(2) pG fg] by simp
    with fr pg show ?thesis by blast
  qed
  have lo: "?R g m'" if "g \<in> set (all_groups r)" "\<forall>p. prefix (?G @ [slug g]) p \<longrightarrow> m' p = m p" "?R g m"
    for g m m'
    using that(3) that(2) [rule_format, of "?G @ [slug g, ''index.html'']"]
      that(2) [rule_format, of "?G @ [slug g, ''events'', ''index.html'']"] by simp
  have "?Q w' \<and> (\<forall>p. (\<forall>g \<in> set (all_groups r). \<not> prefix (?G @ [slug g]) p) \<longrightarrow> fs w' p = fs w1 p) \<and>
      (\<forall>g \<in> set (all_groups r). ?R g (fs w'))"
    by (rule foreachE_local [where k = "\<lambda>g. ?G @ [slug g]" and Q = ?Q and R = ?R, OF loop q1 dk pk])
      (fact st, fact lo)
  then have fr2: "\<forall>p. (\<forall>g \<in> set (all_groups r). \<not> prefix (?G @ [slug g]) p) \<longrightarrow> fs w' p = fs w1 p"
    and pages: "\<forall>g \<in> set (all_groups r). ?R g (fs w')" by blast+
  have "\<forall>p. \<not> prefix ?G p \<longrightarrow> fs w' p = fs w p" using fr1 fr2 not_prefix_append by metis
  with pages show ?thesis by simp
qed

theorem render_groups_pages_witness:
  "\<exists>w'. render_groups ex_externals ex_builder ex_repos ex_world_out = Inr w' \<and>
     dir_at ex_world_out (out ex_builder) \<and>
     (\<forall>g \<in> set (all_groups ex_repos). simple_name (slug g)) \<and>
     distinct (map slug (all_groups ex_repos)) \<and>
     clean_path (loader (env ex_builder)) \<and> out ex_builder \<parallel> loader (env ex_builder) \<and>
     get_template (env ex_builder) (fs ex_world_out) ''group.html'' = Inr ''GROUP'' \<and>
     get_template (env ex_builder) (fs ex_world_out) ''group_events.html'' = Inr ''GROUP_EVENTS'' \<and>
     fs w' [''out'', ''events''] = None \<and>
     fs w' [''out'', ''groups'', ''g1'', ''index.html''] = Some (File ''GROUP'') \<and>
     fs w' [''out'', ''groups'', ''g1'', ''events'', ''index.html''] = Some (File ''GROUP_EVENTS'')"
proof -
  have "\<exists>w'. render_groups ex_externals ex_builder ex_repos ex_world_out = Inr w'"
    by (simp add: render_groups_def render_groups_body_def render_group_def render_group_events_def
        render_def get_template_def ex_defs step_simps)
  then obtain w' where ok: "render_groups ex_externals ex_builder ex_repos ex_world_out = Inr w'" ..
  have h: "dir_at ex_world_out (out ex_builder)"
    "\<forall>g \<in> set (all_groups ex_repos). simple_name (slug g)"
    "distinct (map slug (all_groups ex_repos))"
    "clean_path (loader (env ex_builder))" "out ex_builder \<parallel> loader (env ex_builder)"
    "get_template (env ex_builder) (fs ex_world_out) ''group.html'' = Inr ''GROUP''"
    "get_template (env ex_builder) (fs ex_world_out) ''group_events.html'' = Inr ''GROUP_EVENTS''"
    by (simp_all add: dir_at_def wf_fs_def clean_path_def simple_name_def parallel_def
        get_template_def ex_defs step_simps)
  have ids: "out ex_builder = [''out'']" "ex_g1 \<in> set (all_groups ex_repos)" "slug ex_g1 = ''g1''"
    by (simp_all add: ex_defs)
  from render_groups_pages [OF ok h] ids have
    "fs w' [''out'', ''events''] = fs ex_world_out [''out'', ''events'']"
    "fs w' [''out'', ''groups'', ''g1'', ''index.html''] =
       Some (File (engine ex_externals (autoescape (env ex_builder)) ''GROUP''
         (group_context ex_builder ex_g1 (filter_group ex_repos ''g1'' (now ex_builder) None))))"
    "fs w' [''out'', ''groups'', ''g1'', ''events'', ''index.html''] =
       Some (File (engine ex_externals (autoescape (env ex_builder)) ''GROUP_EVENTS''
         (group_events_context ex_g1 (filter_group ex_repos ''g1'' (now ex_builder) (Some old_delta)))))"
    by auto
  then have "fs w' [''out'', ''events''] = None"
    "fs w' [''out'', ''groups'', ''g1'', ''index.html''] = Some (File ''GROUP'')"
    "fs w' [''out'', ''groups'', ''g1'', ''events'', ''index.html''] = Some (File ''GROUP_EVENTS'')"
    by (simp_all add: ex_defs)
  with ok h show ?thesis by blast
qed

section \<open>Contents of the hackathon pages\<close>

text \<open>C26. With hackathon slugs that are distinct plain path components and the
  template directory outside the output tree, a completed hackathon pass
  leaves, for every hackathon, \<open>hackathons/<slug>/index.html\<close> holding the
  hackathon template rendered against that hackathon's context, and changes
  nothing outside \<open>hackathons/\<close>.\<close>

theorem render_hackathons_pages:
  assumes ok: "render_hackathons x b r w = Inr w'" and d: "dir_at w (out b)"
    and ids: "\<forall>h \<in> set (all_hackathons r). simple_name (hackathon_slug h)"
    and dist: "distinct (map hackathon_slug (all_hackathons r))"
    and cl: "clean_path (loader (env b))" and par: "out b \<parallel> loader (env b)"
    and tpl: "get_template (env b) (fs w) ''hackathon.html'' = Inr src"
  shows "(\<forall>p. \<not> prefix (out b @ [''hackathons'']) p \<longrightarrow> fs w' p = fs w p) \<and>
         (\<forall>h \<in> set (all_hackathons r). fs w' (out b @ [''hackathons'', hackathon_slug h, ''index.html'']) =
            Some (File (engine x (autoescape (env b)) src (hackathon_context h))))"
proof (rule pass_pages [where g = "\<lambda>h. say (''Rendering hackathon: '' @ hackathon_name h)"
      and k = hackathon_slug and ctx = hackathon_context])
  show "bindE (mkdir (out b @ [''hackathons'']) w)
      (foreachE (\<lambda>h. render_hackathon x b h (out b @ [''hackathons''])) (all_hackathons r)) = Inr w'"
    using ok by (simp add: render_hackathons_def Let_def simple_name_def)
  show "render_hackathon x b h (out b @ [''hackathons'']) t =
      bindE (mkdir (out b @ [''hackathons'', hackathon_slug h]) (say (''Rendering hackathon: '' @ hackathon_name h) t))
        (render x b ''hackathon.html'' (hackathon_context h)
           (out b @ [''hackathons'', hackathon_slug h, ''index.html'']))"
    if "h \<in> set (all_hackathons r)" for h t
    using ids that by (simp add: render_hackathon_def Let_def)
qed (use d ids dist cl par tpl sound_render_hackathon in \<open>simp_all add: simple_name_def\<close>)

theorem render_hackathons_pages_witness:
  "\<exists>w'. render_hackathons ex_externals ex_builder ex_repos ex_world_out = Inr w' \<and>
     dir_at ex_world_out (out ex_builder) \<and>
     (\<forall>h \<in> set (all_hackathons ex_repos). simple_name (hackathon_slug h)) \<and>
     distinct (map hackathon_slug (all_hackathons ex_repos)) \<and>
     clean_path (loader (env ex_builder)) \<and> out ex_builder \<parallel> loader (env ex_builder) \<and>
     get_template (env ex_builder) (fs ex_world_out) ''hackathon.html'' = Inr ''HACKATHON'' \<and>
     fs w' [''out'', ''events''] = None \<and>
     fs w' [''out'', ''hackathons'', ''h1'', ''index.html''] = Some (File ''HACKATHON'')"
proof -
  have "\<exists>w'. render_hackathons ex_externals ex_builder ex_repos ex_world_out = Inr w'"
    by (simp add: render_hackathons_def render_hackathon_def render_def get_template_def ex_defs step_simps)
  then obtain w' where ok: "render_hackathons ex_externals ex_builder ex_repos ex_world_out = Inr w'" ..
  have h: "dir_at ex_world_out (out ex_builder)"
    "\<forall>h \<in> set (all_hackathons ex_repos). simple_name (hackathon_slug h)"
    "distinct (map hackathon_slug (all_hackathons ex_repos))"
    "clean_path (loader (env ex_builder))" "out ex_builder \<parallel> loader (env ex_builder)"
    "get_template (env ex_builder) (fs ex_world_out) ''hackathon.html'' = Inr ''HACKATHON''"
    by (simp_all add: dir_at_def wf_fs_def clean_path_def simple_name_def parallel_def
        get_template_def ex_defs step_simps)
  have ids: "out ex_builder = [''out'']" "ex_hack \<in> set (all_hackathons ex_repos)" "hackathon_slug ex_hack = ''h1''"
    by (simp_all add: ex_defs)
  from render_hackathons_pages [OF ok h] ids have
    "fs w' [''out'', ''events''] = fs ex_world_out [''out'', ''events'']"
    "fs w' [''out'', ''hackathons'', ''h1'', ''index.html''] =
       Some (File (engine ex_externals (autoescape (env ex_builder)) ''HACKATHON'' (hackathon_context ex_hack)))"
    by auto
  then have "fs w' [''out'', ''events''] = None"
    "fs w' [''out'', ''hackathons'', ''h1'', ''index.html''] = Some (File ''HACKATHON'')"
    by (simp_all add: ex_defs)
  with ok h show ?thesis by blast
qed

section \<open>The static copy\<close>

lemma copy_files_loop:
  assumes "foreachE (\<lambda>fn. copyfile (pjoin src fn) (pjoin dst fn)) fns w = Inr w'"
    and "clean_path src" and "clean_path dst" and "\<forall>fn \<in> set fns. simple_name fn"
    and "distinct fns" and "\<forall>x y. src @ x \<noteq> dst @ y"
  shows "(\<forall>p. p \<notin> (\<lambda>fn. dst @ [fn]) ` set fns \<longrightarrow> fs w' p = fs w p) \<and>
         (\<forall>fn \<in> set fns. fs w' (dst @ [fn]) = fs w (src @ [fn]))"
  using assms
proof (induction fns arbitrary: w)
  case Nil
  then show ?case by simp
next
  case (Cons fn fns)
  from Cons.prems(1) obtain w1 where c: "copyfile (src @ [fn]) (dst @ [fn]) w = Inr w1"
    and rest: "foreachE (\<lambda>fn. copyfile (pjoin src fn) (pjoin dst fn)) fns w1 = Inr w'"
    using Cons.prems(4) by (auto simp: bindE_eq_Inr_iff)
  from copyfile_clean_Inr [OF c] Cons.prems(2,3,4) obtain s where
    sf: "fs w (src @ [fn]) = Some (File s)" and w1: "fs w1 = (fs w)(dst @ [fn] \<mapsto> File s)" by auto
  have ih: "(\<forall>p. p \<notin> (\<lambda>fn. dst @ [fn]) ` set fns \<longrightarrow> fs w' p = fs w1 p) \<and>
            (\<forall>fn \<in> set fns. fs w' (dst @ [fn]) = fs w1 (src @ [fn]))"
    using Cons.IH [OF rest Cons.prems(2,3)] Cons.prems(4-6) by simp
  have ne: "src @ [f] \<noteq> dst @ [fn]" for f using Cons.prems(6) by blast
  have "dst @ [fn] \<notin> (\<lambda>fn. dst @ [fn]) ` set fns" using Cons.prems(5) by auto
  with ih have "fs w' (dst @ [fn]) = fs w1 (dst @ [fn])" by blast
  with sf w1 have "fs w' (dst @ [fn]) = fs w (src @ [fn])" by simp
  with ih w1 ne show ?case by auto
qed


lemma copy_static_dir_clean:
  assumes "copy_static_dir b (rel, fns) w = Inr w'"
    and "clean_path (out b)" and "clean_path (public b)" and "out b \<parallel> public b"
    and "clean_path rel" and "\<forall>fn \<in> set fns. simple_name fn" and "distinct fns"
  shows "(\<forall>p. p \<noteq> out b @ rel \<and> p \<notin> (\<lambda>fn. out b @ rel @ [fn]) ` set fns \<longrightarrow> fs w' p = fs w p) \<and>
         (\<forall>fn \<in> set fns. fs w' (out b @ rel @ [fn]) = fs w (public b @ rel @ [fn]))"
proof -
  from assms(1) obtain w1 where m: "mkdir (out b @ rel) w = Inr w1"
    and loop: "foreachE (\<lambda>fn. copyfile (pjoin (public b @ rel) fn) (pjoin (out b @ rel) fn)) fns w1 = Inr w'"
    by (auto simp: copy_static_dir_def Let_def bindE_eq_Inr_iff)
  have co: "clean_path (out b @ rel)" and cp: "clean_path (public b @ rel)"
    using assms(2,3,5) by (auto simp: clean_path_def)
  from mkdir_clean_Inr [OF m co] have w1: "fs w1 = (fs w)(out b @ rel \<mapsto> Dir)" by simp
  have disj: "\<forall>x y. (public b @ rel) @ x \<noteq> (out b @ rel) @ y"
    using parallel_append_neq [OF parallel_commute [THEN iffD1, OF assms(4)]] by simp
  from copy_files_loop [OF loop cp co assms(6,7) disj] have
    fr: "\<forall>p. p \<notin> (\<lambda>fn. (out b @ rel) @ [fn]) ` set fns \<longrightarrow> fs w' p = fs w1 p"
    and fl: "\<forall>fn \<in> set fns. fs w' ((out b @ rel) @ [fn]) = fs w1 ((public b @ rel) @ [fn])" by simp_all
  have "public b @ rel @ [fn] \<noteq> out b @ rel" for fn
    using parallel_append_neq [OF parallel_commute [THEN iffD1, OF assms(4)]] by blast
  with fr fl w1 show ?thesis by auto
qed

lemma copy_static_loop:
  assumes "foreachE (copy_static_dir b) walked w = Inr w'"
    and "clean_path (out b)" and "clean_path (public b)" and "out b \<parallel> public b"
    and "static_source_ok b (fs w) walked"
  shows "(\<forall>p. p \<notin> static_targets b walked \<longrightarrow> fs w' p = fs w p) \<and>
         (\<forall>(rel, fns) \<in> set walked. \<forall>fn \<in> set fns. fs w' (out b @ rel @ [fn]) = fs w (public b @ rel @ [fn]))"
  using assms(1,5)
proof (induction walked arbitrary: w)
  case Nil
  then show ?case by (simp add: static_targets_def)
next
  case (Cons d walked)
  obtain rel fns where d: "d = (rel, fns)" by fastforce
  from Cons.prems(1) d obtain w1 where s1: "copy_static_dir b (rel, fns) w = Inr w1"
    and rest: "foreachE (copy_static_dir b) walked w1 = Inr w'"
    by (auto simp: bindE_eq_Inr_iff)
  have ok: "clean_path rel" "\<forall>fn \<in> set fns. simple_name fn" "distinct fns"
    and srcdir: "fs w (public b @ rel) = Some Dir"
    and srcf: "\<forall>fn \<in> set fns. is_file (fs w (public b @ rel @ [fn]))"
    using Cons.prems(2) d by (auto simp: static_source_ok_def)
  from copy_static_dir_clean [OF s1 assms(2-4) ok] have
    fr1: "\<forall>p. p \<noteq> out b @ rel \<and> p \<notin> (\<lambda>fn. out b @ rel @ [fn]) ` set fns \<longrightarrow> fs w1 p = fs w p"
    and fl1: "\<forall>fn \<in> set fns. fs w1 (out b @ rel @ [fn]) = fs w (public b @ rel @ [fn])" by simp_all
  have pub: "fs w1 (public b @ x) = fs w (public b @ x)" for x
    using fr1 parallel_append_neq [OF assms(4)] by (metis (no_types, lifting) image_iff)
  have "static_source_ok b (fs w1) walked"
    using Cons.prems(2) by (simp add: static_source_ok_def pub)
  from Cons.IH [OF rest this] have
    fr2: "\<forall>p. p \<notin> static_targets b walked \<longrightarrow> fs w' p = fs w1 p"
    and fl2: "\<forall>(rel, fns) \<in> set walked. \<forall>fn \<in> set fns. fs w' (out b @ rel @ [fn]) = fs w1 (public b @ rel @ [fn])"
    by simp_all
  have first: "fs w' (out b @ rel @ [fn]) = fs w (public b @ rel @ [fn])" if fn: "fn \<in> set fns" for fn
  proof -
    have "out b @ rel @ [fn] \<notin> static_targets b walked"
    proof
      assume "out b @ rel @ [fn] \<in> static_targets b walked"
      then consider (subdir) fns' where "(rel @ [fn], fns') \<in> set walked"
        | (copied) rel' fns' fn' where "(rel', fns') \<in> set walked" "fn' \<in> set fns'" "rel @ [fn] = rel' @ [fn']"
        by (auto simp: static_targets_def)
      then show False
      proof cases
        case subdir
        with Cons.prems(2) have "fs w (public b @ rel @ [fn]) = Some Dir"
          by (auto simp: static_source_ok_def)
        with srcf fn show False by (auto simp: is_file_def)
      next
        case copied
        then have "rel' = rel" by simp
        with copied(1) have "rel \<in> fst ` set walked" by force
        with Cons.prems(2) d show False by (simp add: static_source_ok_def)
      qed
    qed
    with fr2 fl1 fn show ?thesis by simp
  qed
  have "fs w' p = fs w p" if "p \<notin> static_targets b (d # walked)" for p
  proof -
    from that d have "p \<notin> static_targets b walked" and "p \<noteq> out b @ rel"
      and "p \<notin> (\<lambda>fn. out b @ rel @ [fn]) ` set fns"
      by (auto simp: static_targets_def)
    with fr1 fr2 show ?thesis by simp
  qed
  with first fl2 pub d show ?case by auto
qed

lemma os_walk_source_ok: "os_walk_spec m (public b) walked \<Longrightarrow> static_source_ok b m walked"
  by (fastforce simp: os_walk_spec_def static_source_ok_def is_file_def)

lemma static_source_ok_agree:
  "(\<forall>p. prefix (public b) p \<longrightarrow> m' p = m p) \<Longrightarrow> static_source_ok b m' walked = static_source_ok b m walked"
  by (simp add: static_source_ok_def is_file_def)

lemma static_targets_prefix: "p \<in> static_targets b walked \<Longrightarrow> prefix (out b) p"
  by (auto simp: static_targets_def)

lemma copy_static_dir_makes_dir:
  assumes "copy_static_dir b (rel, fns) w = Inr w'" and "wf_fs (fs w)"
    and "clean_path (out b)" and "clean_path rel"
  shows "fs w' (out b @ rel) = Some Dir"
proof -
  from assms(1) obtain w1 where m: "mkdir (out b @ rel) w = Inr w1"
    and loop: "foreachE (\<lambda>fn. copyfile (pjoin (public b @ rel) fn) (pjoin (out b @ rel) fn)) fns w1 = Inr w'"
    by (auto simp: copy_static_dir_def Let_def bindE_eq_Inr_iff)
  have "clean_path (out b @ rel)" using assms(3,4) by simp
  from mkdir_clean_Inr [OF m this] have d: "fs w1 (out b @ rel) = Some Dir" by simp
  have "sound (foreachE (\<lambda>fn. copyfile (pjoin (public b @ rel) fn) (pjoin (out b @ rel) fn)) fns)"
    by (intro sound_intros)
  from sound_Inr [OF this mkdir_wf [OF assms(2) m] loop] d show ?thesis by (auto intro: kept_dir)
qed

text \<open>C14. \<open>copy_static\<close> mirrors the public tree: every file below the
  public directory is at the same relative path below the output root with the
  same bytes, every directory the walk visits exists below the output root, and
  nothing outside the output root changes (the output and public trees being
  disjoint).\<close>

theorem copy_static_mirrors:
  assumes "copy_static b walked w = Inr w'" and "os_walk_spec (fs w) (public b) walked"
    and "wf_fs (fs w)" and "clean_path (out b)" and "clean_path (public b)" and "out b \<parallel> public b"
  shows "(\<forall>rel fn c. fs w (public b @ rel @ [fn]) = Some (File c) \<longrightarrow>
                     fs w' (out b @ rel @ [fn]) = Some (File c)) \<and>
         (\<forall>(rel, fns) \<in> set walked. fs w' (out b @ rel) = Some Dir) \<and>
         (\<forall>p. \<not> prefix (out b) p \<longrightarrow> fs w' p = fs w p)"
proof -
  have loop: "foreachE (copy_static_dir b) walked (say ''Copying static files from `public` to `out`'' w) = Inr w'"
    using assms(1) by (simp add: copy_static_def)
  have src: "static_source_ok b (fs (say ''Copying static files from `public` to `out`'' w)) walked"
    using os_walk_source_ok [OF assms(2)] by simp
  from copy_static_loop [OF loop assms(4-6) src] have
    fr: "\<forall>p. p \<notin> static_targets b walked \<longrightarrow> fs w' p = fs w p"
    and fl: "\<forall>(rel, fns) \<in> set walked. \<forall>fn \<in> set fns. fs w' (out b @ rel @ [fn]) = fs w (public b @ rel @ [fn])"
    by simp_all
  have files: "fs w' (out b @ rel @ [fn]) = Some (File c)" if "fs w (public b @ rel @ [fn]) = Some (File c)" for rel fn c
  proof -
    have "\<forall>rel fn c. fs w (public b @ rel @ [fn]) = Some (File c) \<longrightarrow>
            (\<exists>fns. (rel, fns) \<in> set walked \<and> fn \<in> set fns)"
      using assms(2) by (simp add: os_walk_spec_def)
    with that obtain fns where "(rel, fns) \<in> set walked" "fn \<in> set fns" by blast
    with fl that show ?thesis by fastforce
  qed
  have dirs: "fs w' (out b @ rel) = Some Dir" if "(rel, fns) \<in> set walked" for rel fns
  proof -
    have snd: "\<And>d. d \<in> set walked \<Longrightarrow> sound (copy_static_dir b d)" by (rule sound_copy_static_dir)
    from foreachE_mem [OF loop that snd] assms(3) obtain t t' where
      st: "copy_static_dir b (rel, fns) t = Inr t'" and t: "wf_fs (fs t)" and k: "kept (fs t') (fs w')"
      by auto
    have "clean_path rel" using assms(2) that by (auto simp: os_walk_spec_def)
    from copy_static_dir_makes_dir [OF st t assms(4) this] k show ?thesis by (rule kept_dir [rotated])
  qed
  from files dirs fr static_targets_prefix show ?thesis by blast
qed

theorem copy_static_mirrors_witness:
  "\<exists>w'. copy_static ex_builder [([], [''site.css''])] ex_world_out = Inr w' \<and>
     os_walk_spec (fs ex_world_out) (public ex_builder) [([], [''site.css''])] \<and>
     wf_fs (fs ex_world_out) \<and> clean_path (out ex_builder) \<and> clean_path (public ex_builder) \<and>
     out ex_builder \<parallel> public ex_builder \<and>
     fs w' [''out'', ''site.css''] = Some (File ''CSS'')"
proof -
  have "\<exists>w'. copy_static ex_builder [([], [''site.css''])] ex_world_out = Inr w'"
    by (simp add: copy_static_def copy_static_dir_def ex_defs step_simps)
  then obtain w' where ok: "copy_static ex_builder [([], [''site.css''])] ex_world_out = Inr w'" ..
  have ow: "os_walk_spec (fs ex_world_out) (public ex_builder) [([], [''site.css''])]"
    by (auto simp: os_walk_spec_def clean_path_def simple_name_def ex_defs step_simps)
  have h: "wf_fs (fs ex_world_out)" "clean_path (out ex_builder)" "clean_path (public ex_builder)"
    "out ex_builder \<parallel> public ex_builder"
    by (simp_all add: wf_fs_def clean_path_def simple_name_def parallel_def ex_defs step_simps)
  have src: "fs ex_world_out (public ex_builder @ [] @ [''site.css'']) = Some (File ''CSS'')"
    by (simp add: ex_defs step_simps)
  have "fs w' (out ex_builder @ [] @ [''site.css'']) = Some (File ''CSS'')"
    using conjunct1 [OF copy_static_mirrors [OF ok ow h]] src by blast
  then have "fs w' [''out'', ''site.css''] = Some (File ''CSS'')" by (simp add: ex_defs)
  with ok ow h show ?thesis by blast
qed

end
