(* ===== verification/Trace.thy ===== *)
theory Trace
  imports Passes
begin

text \<open>
  The build as one flat list of primitive operations. \<open>fsop\<close> names the
  five things the builder does to the world: print a line, \<open>Path.mkdir\<close>,
  \<open>SiteBuilder.render\<close>, \<open>shutil.copyfile\<close>, and the closing timing
  line; \<open>exec_op\<close> performs one, \<open>run\<close> a list of them. For every pass
  \<open>P\<close> of \<open>build.py\<close> the list \<open>P_ops\<close> is the operations it performs, and
  \<open>run_P\<close> shows the pass equal to running them; \<open>build_ops\<close> is the whole
  build. On this flat form the replay argument is made once: a run whose
  operations act on clean paths and never write a path they read (templates
  and static sources) can be replayed on its own result, and the replay ends
  in the same file system (\<open>run_idempotent\<close>). \<open>layout_ok\<close> collects what
  the build's own lists need for this: plain names, and output, template and
  static directories that are disjoint subtrees.
\<close>

datatype fsop = OSay string | OMkdir path | ORender string context_dict path | OCopy path path | ODone

fun exec_op :: "externals \<Rightarrow> site_builder \<Rightarrow> fsop \<Rightarrow> world \<Rightarrow> outcome" where
  "exec_op x b (OSay m) w = Inr (say m w)"
| "exec_op x b (OMkdir p) w = mkdir p w"
| "exec_op x b (ORender t c p) w = render x b t c p w"
| "exec_op x b (OCopy s d) w = copyfile s d w"
| "exec_op x b ODone w = Inr (say (''Done in '' @ show_seconds x (clock w - now b) @ '' seconds'') w)"

definition run :: "externals \<Rightarrow> site_builder \<Rightarrow> fsop list \<Rightarrow> world \<Rightarrow> outcome" where
  "run x b ops = foreachE (exec_op x b) ops"

definition index_ops :: "site_builder \<Rightarrow> repositories \<Rightarrow> fsop list" where
  "index_ops b r = [OSay ''Rendering index'', ORender ''index.html'' (index_context b r) (pjoin (out b) ''index.html'')]"

definition event_ops :: "externals \<Rightarrow> repositories \<Rightarrow> path \<Rightarrow> event \<Rightarrow> fsop list" where
  "event_ops x r d e =
     [OMkdir (pjoin d (event_id e)),
      ORender ''event.html'' (event_context x r e) (pjoin (pjoin d (event_id e)) ''index.html'')]"

definition events_ops :: "externals \<Rightarrow> site_builder \<Rightarrow> repositories \<Rightarrow> fsop list" where
  "events_ops x b r =
     [OSay ''Rendering events'', OMkdir (pjoin (out b) ''events'')] @
     concat (map (event_ops x r (pjoin (out b) ''events'')) (all_events r))"

definition group_ops :: "site_builder \<Rightarrow> repositories \<Rightarrow> path \<Rightarrow> group \<Rightarrow> fsop list" where
  "group_ops b r d g =
     [OSay (''Rendering group: '' @ name g), OMkdir (pjoin d (slug g)),
      ORender ''group.html'' (group_context b g (filter_group r (slug g) (now b) None))
        (pjoin (pjoin d (slug g)) ''index.html''),
      OSay (''Rendering group events: '' @ name g), OMkdir (pjoin (pjoin d (slug g)) ''events''),
      ORender ''group_events.html'' (group_events_context g (filter_group r (slug g) (now b) (Some old_delta)))
        (pjoin (pjoin (pjoin d (slug g)) ''events'') ''index.html'')]"

definition groups_ops :: "site_builder \<Rightarrow> repositories \<Rightarrow> fsop list" where
  "groups_ops b r = OMkdir (pjoin (out b) ''groups'') # concat (map (group_ops b r (pjoin (out b) ''groups'')) (all_groups r))"

definition hackathon_ops :: "path \<Rightarrow> hackathon \<Rightarrow> fsop list" where
  "hackathon_ops d h =
     [OSay (''Rendering hackathon: '' @ hackathon_name h), OMkdir (pjoin d (hackathon_slug h)),
      ORender ''hackathon.html'' (hackathon_context h) (pjoin (pjoin d (hackathon_slug h)) ''index.html'')]"

definition hackathons_ops :: "site_builder \<Rightarrow> repositories \<Rightarrow> fsop list" where
  "hackathons_ops b r =
     OMkdir (pjoin (out b) ''hackathons'') # concat (map (hackathon_ops (pjoin (out b) ''hackathons'')) (all_hackathons r))"

definition palette_ops :: "site_builder \<Rightarrow> repositories \<Rightarrow> fsop list" where
  "palette_ops b r = [ORender ''palette.html'' (palette_context r) (pjoin (templates b) ''palette-rendered.html'')]"

definition static_dir_ops :: "site_builder \<Rightarrow> path \<times> string list \<Rightarrow> fsop list" where
  "static_dir_ops b d =
     (case d of (rel, fns) \<Rightarrow>
        OMkdir (out b @ rel) # map (\<lambda>fn. OCopy (pjoin (public b @ rel) fn) (pjoin (out b @ rel) fn)) fns)"

definition static_ops :: "site_builder \<Rightarrow> (path \<times> string list) list \<Rightarrow> fsop list" where
  "static_ops b walked = OSay ''Copying static files from `public` to `out`'' # concat (map (static_dir_ops b) walked)"

definition build_ops :: "externals \<Rightarrow> site_builder \<Rightarrow> repositories \<Rightarrow> (path \<times> string list) list \<Rightarrow> fsop list" where
  "build_ops x b r walked =
     [OSay ''Generating content to `out` directory'', OMkdir (out b)] @ index_ops b r @ events_ops x b r @
     groups_ops b r @ hackathons_ops b r @ palette_ops b r @ static_ops b walked @ [ODone]"

fun writes :: "fsop \<Rightarrow> path list" where
  "writes (OMkdir p) = [p]"
| "writes (ORender t c p) = [p]"
| "writes (OCopy s d) = [d]"
| "writes _ = []"

fun reads :: "site_builder \<Rightarrow> fsop \<Rightarrow> path list" where
  "reads b (ORender t c p) = [loader (env b) @ [t]]"
| "reads b (OCopy s d) = [s]"
| "reads b _ = []"

fun op_ok :: "fsop \<Rightarrow> bool" where
  "op_ok (OMkdir p) = clean_path p"
| "op_ok (ORender t c p) = (clean_path p \<and> simple_name t)"
| "op_ok (OCopy s d) = (clean_path s \<and> clean_path d)"
| "op_ok _ = True"

definition reads_unwritten :: "site_builder \<Rightarrow> fsop list \<Rightarrow> bool" where
  "reads_unwritten b ops \<longleftrightarrow>
     (\<forall>op \<in> set ops. \<forall>op' \<in> set ops. \<forall>q \<in> set (reads b op). \<forall>p \<in> set (writes op'). \<not> prefix p q)"

definition layout_ok :: "site_builder \<Rightarrow> repositories \<Rightarrow> (path \<times> string list) list \<Rightarrow> bool" where
  "layout_ok b r walked \<longleftrightarrow>
     clean_path (out b) \<and> clean_path (templates b) \<and> clean_path (public b) \<and>
     loader (env b) = templates b \<and>
     out b \<parallel> templates b \<and> out b \<parallel> public b \<and> templates b \<parallel> public b \<and>
     (\<forall>e \<in> set (all_events r). simple_name (event_id e)) \<and>
     (\<forall>g \<in> set (all_groups r). simple_name (slug g)) \<and>
     (\<forall>h \<in> set (all_hackathons r). simple_name (hackathon_slug h)) \<and>
     (\<forall>(rel, fns) \<in> set walked. clean_path rel \<and> (\<forall>fn \<in> set fns. simple_name fn))"

text \<open>The reference semantics of a run on the file system alone: each
  operation's effect on the map, folded left to right.\<close>

fun apply_op :: "externals \<Rightarrow> site_builder \<Rightarrow> filesystem \<Rightarrow> fsop \<Rightarrow> filesystem" where
  "apply_op x b m (OMkdir p) = m(p \<mapsto> Dir)"
| "apply_op x b m (ORender t c p) =
     (case get_template (env b) m t of
        Inr src \<Rightarrow> m(p \<mapsto> File (engine x (autoescape (env b)) src c))
      | Inl _ \<Rightarrow> m)"
| "apply_op x b m (OCopy s d) = (case read_file m s of Inr c \<Rightarrow> m(d \<mapsto> File c) | Inl _ \<Rightarrow> m)"
| "apply_op x b m _ = m"

definition apply_ops :: "externals \<Rightarrow> site_builder \<Rightarrow> fsop list \<Rightarrow> filesystem \<Rightarrow> filesystem" where
  "apply_ops x b ops m = fold (\<lambda>op m. apply_op x b m op) ops m"

section \<open>Every pass runs its operation list\<close>

lemma run_Nil [simp]: "run x b [] = Inr"
  and run_Cons [simp]: "run x b (op # ops) = (\<lambda>w. bindE (exec_op x b op w) (run x b ops))"
  by (simp_all add: run_def fun_eq_iff)

lemma run_append: "run x b (xs @ ys) = (\<lambda>w. bindE (run x b xs w) (run x b ys))"
  by (simp add: run_def foreachE_append fun_eq_iff)

lemma run_concat: "run x b (concat (map g xs)) = foreachE (\<lambda>y. run x b (g y)) xs"
  by (simp add: run_def foreachE_concat)

lemma run_index: "run x b (index_ops b r) = render_index x b r"
  by (rule ext) (simp add: index_ops_def render_index_def)

lemma run_event: "run x b (event_ops x r d e) = render_event x b r d e"
  by (rule ext) (simp add: event_ops_def render_event_def Let_def)

lemma run_events: "run x b (events_ops x b r) = render_events x b r"
  by (rule ext) (simp add: events_ops_def render_events_def Let_def run_concat run_event)

lemma run_group: "run x b (group_ops b r d g) = render_groups_body x b r d g"
  by (rule ext) (simp add: group_ops_def render_groups_body_def render_group_def
      render_group_events_def [abs_def] Let_def)

lemma run_groups: "run x b (groups_ops b r) = render_groups x b r"
  by (rule ext) (simp add: groups_ops_def render_groups_def Let_def run_concat run_group)

lemma run_hackathon: "run x b (hackathon_ops d h) = render_hackathon x b h d"
  by (rule ext) (simp add: hackathon_ops_def render_hackathon_def Let_def)

lemma run_hackathons: "run x b (hackathons_ops b r) = render_hackathons x b r"
  by (rule ext) (simp add: hackathons_ops_def render_hackathons_def Let_def run_concat run_hackathon)

lemma run_palette: "run x b (palette_ops b r) = render_palette x b r"
  by (rule ext) (simp add: palette_ops_def render_palette_def)

lemma run_copies:
  "run x b (map (\<lambda>fn. OCopy (s fn) (t fn)) fns) = foreachE (\<lambda>fn. copyfile (s fn) (t fn)) fns"
proof (induction fns)
  case Nil
  then show ?case by simp
next
  case (Cons a fns)
  then show ?case by (intro ext) simp
qed

lemma run_static_dir: "run x b (static_dir_ops b d) = copy_static_dir b d"
  by (rule ext) (simp add: static_dir_ops_def copy_static_dir_def Let_def run_copies split: prod.split)

lemma run_static: "run x b (static_ops b walked) = copy_static b walked"
  by (rule ext) (simp add: static_ops_def copy_static_def run_concat run_static_dir)

lemmas run_passes = run_append run_index run_events run_groups run_hackathons run_palette run_static

section \<open>Replaying a run\<close>

lemma exec_op_fun:
  "exec_op x b (OSay m) = (\<lambda>w. Inr (say m w))" "exec_op x b (OMkdir p) = mkdir p"
  "exec_op x b (ORender t c p) = render x b t c p" "exec_op x b (OCopy s d) = copyfile s d"
  "exec_op x b ODone = (\<lambda>w. Inr (say (''Done in '' @ show_seconds x (clock w - now b) @ '' seconds'') w))"
  by (simp_all add: fun_eq_iff)

lemma sound_exec_op [sound_intros]: "sound (exec_op x b op)"
  by (cases op) (simp_all only: exec_op_fun sound_mkdir sound_render sound_copyfile sound_return)

lemma sound_run [sound_intros]: "sound (run x b ops)"
  unfolding run_def by (intro sound_intros)

lemma exec_op_frame:
  assumes "exec_op x b op u = Inr u1" and "op_ok op" and "p \<notin> set (writes op)"
  shows "fs u1 p = fs u p"
proof (cases op)
  case (OMkdir q)
  with assms mkdir_clean_Inr [of q u u1] show ?thesis by auto
next
  case (ORender t c q)
  with assms write_file_clean_Inr [of q _ u u1] show ?thesis by (auto dest!: render_Inr)
next
  case (OCopy s d)
  with assms copyfile_clean_Inr [of s d u u1] show ?thesis by auto
qed (use assms in auto)

lemma run_frame:
  assumes "run x b ops u = Inr u'" and "\<forall>op \<in> set ops. op_ok op"
    and "p \<notin> (\<Union>op \<in> set ops. set (writes op))"
  shows "fs u' p = fs u p"
  using assms
proof (induction ops arbitrary: u)
  case Nil
  then show ?case by simp
next
  case (Cons op ops)
  from Cons.prems(1) obtain u1 where s: "exec_op x b op u = Inr u1" and rest: "run x b ops u1 = Inr u'"
    by (auto simp: bindE_eq_Inr_iff)
  from exec_op_frame [OF s] Cons.IH [OF rest] Cons.prems(2,3) show ?case by simp
qed

text \<open>An operation that raises leaves the world as it found it: every exception
  of the primitives is raised before anything is written.\<close>

lemma exec_op_Inl: "exec_op x b op u = Inl (e, u1) \<Longrightarrow> u1 = u"
  by (cases op) (auto simp: mkdir_def write_file_def copyfile_def render_def
      split: sum.splits option.splits node.splits if_splits)

lemma run_frame_result:
  assumes "\<forall>op \<in> set ops. op_ok op" and "p \<notin> (\<Union>op \<in> set ops. set (writes op))"
  shows "fs (result_world (run x b ops u)) p = fs u p"
  using assms
proof (induction ops arbitrary: u)
  case (Cons op ops)
  show ?case
  proof (cases "exec_op x b op u")
    case (Inl eu)
    then show ?thesis by (cases eu) (auto dest: exec_op_Inl)
  next
    case (Inr u1)
    with exec_op_frame [OF Inr] Cons.IH [of u1] Cons.prems show ?thesis by simp
  qed
qed simp

text \<open>The parent of a written clean path is a directory in a replay world \<open>v\<close>
  that agrees with \<open>u\<close> or with the final world \<open>M\<close> of the first run.\<close>

lemma exec_op_apply:
  assumes "exec_op x b op u = Inr u1" and "op_ok op"
  shows "fs u1 = apply_op x b (fs u) op"
proof (cases op)
  case (OMkdir p)
  with assms mkdir_clean_Inr [of p u u1] show ?thesis by auto
next
  case (ORender t c p)
  with assms show ?thesis by (auto dest!: render_Inr dest: write_file_clean_Inr)
next
  case (OCopy s d)
  from assms OCopy obtain c where "read_file (fs u) s = Inr c" and "write_file d c u = Inr u1"
    by (auto simp: copyfile_def split: if_splits sum.splits)
  with assms OCopy write_file_clean_Inr [of d c u u1] show ?thesis by auto
qed (use assms in auto)

lemma run_apply:
  "run x b ops u = Inr u' \<Longrightarrow> \<forall>op \<in> set ops. op_ok op \<Longrightarrow> fs u' = apply_ops x b ops (fs u)"
proof (induction ops arbitrary: u)
  case Nil
  then show ?case by (simp add: apply_ops_def)
next
  case (Cons op ops)
  from Cons.prems(1) obtain u1 where s: "exec_op x b op u = Inr u1" and rest: "run x b ops u1 = Inr u'"
    by (auto simp: bindE_eq_Inr_iff)
  from exec_op_apply [OF s] Cons.IH [OF rest] Cons.prems(2) show ?case by (simp add: apply_ops_def)
qed

lemma replay_parent:
  assumes "wf_fs (fs u)" "clean_path q" "q \<noteq> []" "locate (fs u) q = Inr t"
    and "fs u1 = (fs u)(q \<mapsto> n)" and vm: "\<forall>a. fs v a = fs u a \<or> fs v a = M a" and km: "kept (fs u1) M"
  shows "fs v (butlast q) = Some Dir"
proof -
  have pu: "fs u (butlast q) = Some Dir" using locate_clean_parent [OF assms(1-4)] .
  with assms(5) butlast_neq [OF assms(3)] have "fs u1 (butlast q) = Some Dir" by simp
  with km have "M (butlast q) = Some Dir" by (rule kept_dir)
  with pu vm show ?thesis by metis
qed

lemma mkdir_replay:
  assumes u: "mkdir q u = Inr u1" and wu: "wf_fs (fs u)" and wv: "wf_fs (fs v)" and cq: "clean_path q"
    and vm: "\<forall>a. fs v a = fs u a \<or> fs v a = M a" and km: "kept (fs u1) M"
  shows "mkdir q v = Inr (v\<lparr>fs := (fs v)(q \<mapsto> Dir)\<rparr>) \<and> fs u1 = (fs u)(q \<mapsto> Dir)"
proof -
  from mkdir_clean_Inr [OF u cq] have t: "fs u q = None \<or> fs u q = Some Dir"
    and f1: "fs u1 = (fs u)(q \<mapsto> Dir)" by auto
  from mkdir_Inr [OF u] obtain t where l: "locate (fs u) q = Inr t" by blast
  have "fs u1 q = Some Dir" using f1 by simp
  with km have "M q = Some Dir" by (rule kept_dir)
  with t vm have "fs v q = None \<or> fs v q = Some Dir" by metis
  with mkdir_clean_ok [OF wv cq replay_parent [OF wu cq _ l f1 vm km]] f1 show ?thesis by simp
qed

lemma write_replay:
  assumes u: "write_file q s u = Inr u1" and wu: "wf_fs (fs u)" and wv: "wf_fs (fs v)" and cq: "clean_path q"
    and vm: "\<forall>a. fs v a = fs u a \<or> fs v a = M a" and km: "kept (fs u1) M"
  shows "write_file q s v = Inr (v\<lparr>fs := (fs v)(q \<mapsto> File s)\<rparr>) \<and> fs u1 = (fs u)(q \<mapsto> File s)"
proof -
  from write_file_Inr [OF u] obtain t where l: "locate (fs u) q = Inr t" and nd: "fs u t \<noteq> Some Dir"
    and u1: "u1 = u\<lparr>fs := (fs u)(t \<mapsto> File s)\<rparr>" by blast
  have tq: "t = q" using locate_clean_result [OF cq l] .
  have ne: "q \<noteq> []" using nd tq wf_fs_root [OF wu] by auto
  have f1: "fs u1 = (fs u)(q \<mapsto> File s)" using u1 tq by simp
  then have "fs u1 q = Some (File s)" by simp
  with km have "M q \<noteq> Some Dir" by (rule kept_not_dir)
  with nd tq vm have "fs v q \<noteq> Some Dir" by metis
  with write_clean_ok [OF wv cq ne replay_parent [OF wu cq ne l f1 vm km]] f1 show ?thesis by simp
qed

lemma exec_op_replay:
  assumes u: "exec_op x b op u = Inr u1" and wu: "wf_fs (fs u)" and wv: "wf_fs (fs v)"
    and ok: "op_ok op" and cl: "clean_path (loader (env b))"
    and rd: "\<forall>q \<in> set (reads b op). \<forall>a. prefix a q \<longrightarrow> fs v a = fs u a"
    and dj: "\<forall>q \<in> set (reads b op). \<forall>p \<in> set (writes op). \<not> prefix p q"
    and vm: "\<forall>a. fs v a = fs u a \<or> fs v a = M a" and km: "kept (fs u1) M"
  shows "\<exists>v1. exec_op x b op v = Inr v1 \<and>
           fs v1 = (\<lambda>p. if p \<in> set (writes op) then fs u1 p else fs v p) \<and>
           (\<forall>p. p \<notin> set (writes op) \<longrightarrow> fs u1 p = fs u p)"
proof (cases op)
  case (OSay m)
  with u show ?thesis by auto
next
  case ODone
  with u show ?thesis by auto
next
  case (OMkdir q)
  with u ok mkdir_replay [OF _ wu wv _ vm km, of q] show ?thesis by (auto simp: fun_eq_iff)
next
  case (ORender t c q)
  from u ORender obtain src where g: "get_template (env b) (fs u) t = Inr src"
    and wr: "write_file q (engine x (autoescape (env b)) src c) u = Inr u1"
    by (auto dest: render_Inr)
  have "get_template (env b) (fs v) t = Inr src"
    using get_template_reads [OF cl _ , of t "fs v" "fs u"] ok rd g ORender by simp
  with write_replay [OF wr wu wv _ vm km] ok ORender show ?thesis
    by (auto simp: render_def fun_eq_iff)
next
  case (OCopy s d)
  from u OCopy have ns: "\<not> same_file (fs u) s d" by (auto simp: copyfile_def)
  from u OCopy ns obtain c where rf: "read_file (fs u) s = Inr c" and wr: "write_file d c u = Inr u1"
    by (auto simp: copyfile_def split: sum.splits)
  have cs: "clean_path s" "clean_path d" using ok OCopy by simp_all
  have "s \<noteq> d" using dj OCopy by auto
  then have "\<not> same_file (fs v) s d" using same_file_clean [OF cs] by blast
  moreover have "read_file (fs v) s = Inr c" using read_file_agree [OF cs(1), of "fs v" "fs u"] rd OCopy rf by simp
  ultimately show ?thesis using write_replay [OF wr wu wv cs(2) vm km] OCopy
    by (auto simp: copyfile_def fun_eq_iff)
qed

lemma run_replay:
  assumes "run x b ops u = Inr u'" and "wf_fs (fs u)" and "wf_fs (fs v)"
    and "\<forall>op \<in> set ops. op_ok op" and "clean_path (loader (env b))" and "reads_unwritten b ops"
    and "\<forall>a. fs v a = fs u a \<or> (a \<in> (\<Union>op \<in> set ops. set (writes op)) \<and> fs v a = fs u' a)"
  shows "\<exists>v'. run x b ops v = Inr v' \<and> fs v' = fs u'"
  using assms
proof (induction ops arbitrary: u v)
  case Nil
  then show ?case by (auto simp: fun_eq_iff)
next
  case (Cons op ops)
  from Cons.prems(1) obtain u1 where s: "exec_op x b op u = Inr u1" and rest: "run x b ops u1 = Inr u'"
    by (auto simp: bindE_eq_Inr_iff)
  have wu1: "wf_fs (fs u1)" using sound_Inr [OF sound_exec_op Cons.prems(2) s] by blast
  have km: "kept (fs u1) (fs u')" using sound_Inr [OF sound_run wu1 rest] by blast
  have ru: "reads_unwritten b (op # ops)" by (rule Cons.prems(6))
  have rd: "\<forall>q \<in> set (reads b op). \<forall>a. prefix a q \<longrightarrow> fs v a = fs u a"
  proof (intro ballI allI impI)
    fix q a assume q: "q \<in> set (reads b op)" and a: "prefix a q"
    have "a \<notin> (\<Union>op \<in> set (op # ops). set (writes op))"
      using ru q a by (auto simp: reads_unwritten_def)
    with Cons.prems(7) show "fs v a = fs u a" by blast
  qed
  have dj: "\<forall>q \<in> set (reads b op). \<forall>p \<in> set (writes op). \<not> prefix p q"
    using ru by (simp add: reads_unwritten_def)
  have vm: "\<forall>a. fs v a = fs u a \<or> fs v a = fs u' a" using Cons.prems(7) by blast
  from exec_op_replay [OF s Cons.prems(2,3) _ Cons.prems(5) rd dj vm km] Cons.prems(4) obtain v1 where
    v1: "exec_op x b op v = Inr v1" and fv1: "fs v1 = (\<lambda>p. if p \<in> set (writes op) then fs u1 p else fs v p)"
    and fu1: "\<forall>p. p \<notin> set (writes op) \<longrightarrow> fs u1 p = fs u p" by auto
  have wv1: "wf_fs (fs v1)" using sound_Inr [OF sound_exec_op Cons.prems(3) v1] by blast
  have "\<forall>a. fs v1 a = fs u1 a \<or> (a \<in> (\<Union>op \<in> set ops. set (writes op)) \<and> fs v1 a = fs u' a)"
    using Cons.prems(7) fv1 fu1 by auto
  moreover have "reads_unwritten b ops" using ru by (simp add: reads_unwritten_def)
  ultimately obtain v' where "run x b ops v1 = Inr v'" and "fs v' = fs u'"
    using Cons.IH [OF rest wu1 wv1] Cons.prems(4,5) by auto
  with v1 show ?case by auto
qed

theorem run_idempotent:
  assumes "run x b ops w = Inr w1" and "wf_fs (fs w)"
    and "\<forall>op \<in> set ops. op_ok op" and "clean_path (loader (env b))" and "reads_unwritten b ops"
  shows "\<exists>w2. run x b ops w1 = Inr w2 \<and> fs w2 = fs w1"
proof (rule run_replay [OF assms(1,2) _ assms(3-5)])
  show "wf_fs (fs w1)" using sound_Inr [OF sound_run assms(2,1)] by blast
  show "\<forall>a. fs w1 a = fs w a \<or> (a \<in> (\<Union>op \<in> set ops. set (writes op)) \<and> fs w1 a = fs w1 a)"
    using run_frame [OF assms(1,3)] by blast
qed

section \<open>The build\<close>

lemma simple_template_names [simp]:
  "simple_name ''event.html''" "simple_name ''group.html''" "simple_name ''group_events.html''"
  "simple_name ''hackathon.html''" "simple_name ''palette.html''"
  by (simp_all add: simple_name_def)

lemmas ops_defs = build_ops_def index_ops_def events_ops_def event_ops_def groups_ops_def group_ops_def
  hackathons_ops_def hackathon_ops_def palette_ops_def static_ops_def static_dir_ops_def

lemma build_ops_ok:
  "layout_ok b r walked \<Longrightarrow> \<forall>op \<in> set (build_ops x b r walked). op_ok op"
  by (auto simp: layout_ok_def ops_defs split: prod.splits)

lemma build_ops_writes:
  "layout_ok b r walked \<Longrightarrow> op \<in> set (build_ops x b r walked) \<Longrightarrow> p \<in> set (writes op) \<Longrightarrow>
   prefix (out b) p \<or> p = templates b @ [''palette-rendered.html'']"
  by (auto simp: layout_ok_def ops_defs split: prod.splits)

lemma build_ops_reads:
  "layout_ok b r walked \<Longrightarrow> op \<in> set (build_ops x b r walked) \<Longrightarrow> q \<in> set (reads b op) \<Longrightarrow>
   (\<exists>t. q = templates b @ [t] \<and> t \<noteq> ''palette-rendered.html'') \<or> prefix (public b) q"
  by (auto simp: layout_ok_def ops_defs split: prod.splits)

lemma build_ops_reads_unwritten:
  assumes "layout_ok b r walked"
  shows "reads_unwritten b (build_ops x b r walked)"
  unfolding reads_unwritten_def
proof (intro ballI notI)
  fix op op' q p
  assume op: "op \<in> set (build_ops x b r walked)" and op': "op' \<in> set (build_ops x b r walked)"
    and q: "q \<in> set (reads b op)" and p: "p \<in> set (writes op')" and pq: "prefix p q"
  have par: "out b \<parallel> templates b" "out b \<parallel> public b" "templates b \<parallel> public b"
    using assms by (simp_all add: layout_ok_def)
  from build_ops_writes [OF assms op' p] show False
  proof
    assume po: "prefix (out b) p"
    from build_ops_reads [OF assms op q] show False
      using parallel_prefixes [OF par(1) po, of q] parallel_prefixes [OF par(2) po, of q] pq by auto
  next
    assume pt: "p = templates b @ [''palette-rendered.html'']"
    then have "prefix (templates b) p" by simp
    from build_ops_reads [OF assms op q] parallel_prefixes [OF par(3) this, of q] pq pt show False
      by (auto simp: prefix_def)
  qed
qed

lemma build_ops_public:
  assumes "layout_ok b r walked" and "prefix (public b) p"
  shows "p \<notin> (\<Union>op \<in> set (build_ops x b r walked). set (writes op))"
proof
  assume "p \<in> (\<Union>op \<in> set (build_ops x b r walked). set (writes op))"
  then obtain op where "op \<in> set (build_ops x b r walked)" "p \<in> set (writes op)" by blast
  from build_ops_writes [OF assms(1) this] have "prefix (out b) p \<or> prefix (templates b) p" by auto
  with assms parallel_prefixes [of "out b" "public b" p p] parallel_prefixes [of "templates b" "public b" p p]
  show False by (auto simp: layout_ok_def)
qed

end
