(* ===== verification/Plan.thy ===== *)
theory Plan
  imports Trace
begin

text \<open>
  When a run completes. A run of primitive operations raises nothing when its
  operations act on clean paths, every written path's parent is a directory
  already or one an earlier \<open>mkdir\<close> of the run creates (\<open>parents_ok\<close>,
  which threads the created directories the way an abstract state is threaded
  through a program), no path is both created as a directory and written as a
  file (\<open>no_clash\<close>), no directory is a write target and no file a
  \<open>mkdir\<close> target at the start (\<open>targets_free\<close>), and everything read is
  a file that the run never writes (\<open>reads_present\<close>, \<open>reads_unwritten\<close>):
  \<open>run_completes\<close>. For the build, the directories and files the passes
  create are \<open>page_dirs\<close> and \<open>page_files\<close>; \<open>build_ops_completes\<close>
  discharges the conditions from a fresh output directory, the six templates,
  the \<open>os.walk\<close> listing, and a static tree that does not put a file where
  a page directory goes or a directory where a page goes (\<open>static_fits\<close>).
\<close>

fun made :: "fsop \<Rightarrow> path list" where
  "made (OMkdir p) = [p]"
| "made _ = []"

fun filed :: "fsop \<Rightarrow> path list" where
  "filed (ORender t c p) = [p]"
| "filed (OCopy s d) = [d]"
| "filed _ = []"

fun parents_ok :: "filesystem \<Rightarrow> path list \<Rightarrow> fsop list \<Rightarrow> bool" where
  "parents_ok m D [] = True"
| "parents_ok m D (op # ops) =
     ((\<forall>p \<in> set (writes op). p = [] \<or> butlast p \<in> set D \<or> m (butlast p) = Some Dir) \<and>
      parents_ok m (made op @ D) ops)"

definition targets_free :: "filesystem \<Rightarrow> fsop list \<Rightarrow> bool" where
  "targets_free m ops \<longleftrightarrow>
     (\<forall>op \<in> set ops. (\<forall>p \<in> set (made op). \<not> is_file (m p)) \<and> (\<forall>p \<in> set (filed op). m p \<noteq> Some Dir))"

definition no_clash :: "fsop list \<Rightarrow> bool" where
  "no_clash ops \<longleftrightarrow> (\<forall>op \<in> set ops. \<forall>op' \<in> set ops. \<forall>p \<in> set (made op). p \<notin> set (filed op'))"

definition reads_present :: "site_builder \<Rightarrow> filesystem \<Rightarrow> fsop list \<Rightarrow> bool" where
  "reads_present b m ops \<longleftrightarrow> (\<forall>op \<in> set ops. \<forall>q \<in> set (reads b op). is_file (m q))"

definition page_ops :: "externals \<Rightarrow> site_builder \<Rightarrow> repositories \<Rightarrow> fsop list" where
  "page_ops x b r =
     [OSay ''Generating content to `out` directory'', OMkdir (out b)] @ index_ops b r @ events_ops x b r @
     groups_ops b r @ hackathons_ops b r @ palette_ops b r"

definition page_dirs :: "site_builder \<Rightarrow> repositories \<Rightarrow> path list" where
  "page_dirs b r =
     [out b, out b @ [''events'']] @ map (\<lambda>e. out b @ [''events'', event_id e]) (all_events r) @
     [out b @ [''groups'']] @
     concat (map (\<lambda>g. [out b @ [''groups'', slug g], out b @ [''groups'', slug g, ''events'']]) (all_groups r)) @
     [out b @ [''hackathons'']] @ map (\<lambda>h. out b @ [''hackathons'', hackathon_slug h]) (all_hackathons r)"

definition page_files :: "site_builder \<Rightarrow> repositories \<Rightarrow> path list" where
  "page_files b r =
     [out b @ [''index.html'']] @ map (\<lambda>e. out b @ [''events'', event_id e, ''index.html'']) (all_events r) @
     concat (map (\<lambda>g. [out b @ [''groups'', slug g, ''index.html''],
                       out b @ [''groups'', slug g, ''events'', ''index.html'']]) (all_groups r)) @
     map (\<lambda>h. out b @ [''hackathons'', hackathon_slug h, ''index.html'']) (all_hackathons r) @
     [templates b @ [''palette-rendered.html'']]"

definition template_names :: "string list" where
  "template_names = [''index.html'', ''event.html'', ''group.html'', ''group_events.html'', ''hackathon.html'', ''palette.html'']"

definition static_fits :: "site_builder \<Rightarrow> repositories \<Rightarrow> (path \<times> string list) list \<Rightarrow> bool" where
  "static_fits b r walked \<longleftrightarrow>
     (\<forall>(rel, fns) \<in> set walked. out b @ rel \<notin> set (page_files b r) \<and>
        (\<forall>fn \<in> set fns. out b @ rel @ [fn] \<notin> set (page_dirs b r)))"

lemma writes_made_filed: "set (writes op) = set (made op) \<union> set (filed op)"
  by (cases op) simp_all

lemma read_file_present:
  assumes "wf_fs m" "clean_path q" "is_file (m q)"
  shows "\<exists>s. read_file m q = Inr s"
proof -
  from assms(3) obtain s where f: "m q = Some (File s)" by (auto simp: is_file_def split: option.splits node.splits)
  then have ne: "q \<noteq> []" using wf_fs_root [OF assms(1)] by auto
  have "m (butlast q) = Some Dir" using wf_fs_parent [OF assms(1) f ne] .
  with locate_clean_ok [OF assms(1,2) ne] f show ?thesis by (simp add: read_file_def)
qed

lemma exec_op_completes:
  assumes wf: "wf_fs (fs u)" and cl: "clean_path (loader (env b))" and ok: "op_ok op"
    and par: "\<forall>p \<in> set (writes op). p = [] \<or> fs u (butlast p) = Some Dir"
    and md: "\<forall>p \<in> set (made op). \<not> is_file (fs u p)"
    and fd: "\<forall>p \<in> set (filed op). fs u p \<noteq> Some Dir"
    and rp: "\<forall>q \<in> set (reads b op). is_file (fs u q)"
    and dj: "\<forall>q \<in> set (reads b op). \<forall>p \<in> set (writes op). \<not> prefix p q"
  shows "\<exists>u1. exec_op x b op u = Inr u1 \<and> (\<forall>p \<in> set (made op). fs u1 p = Some Dir) \<and>
           (\<forall>p \<in> set (filed op). is_file (fs u1 p)) \<and> (\<forall>p. p \<notin> set (writes op) \<longrightarrow> fs u1 p = fs u p)"
proof (cases op)
  case (OMkdir q)
  have "fs u q = None \<or> fs u q = Some Dir" using md OMkdir
    by (auto simp: is_file_def split: option.splits node.splits)
  with mkdir_clean_ok [OF wf _ _ this] ok par OMkdir show ?thesis by auto
next
  case (ORender t c q)
  have ne: "q \<noteq> []" using fd ORender wf_fs_root [OF wf] by auto
  have "clean_path (loader (env b) @ [t])" using cl ok ORender by simp
  from read_file_present [OF wf this] rp ORender obtain src where
    "read_file (fs u) (loader (env b) @ [t]) = Inr src" by auto
  moreover have st: "simple_name t" using ok ORender by simp
  moreover from st have "''..'' \<notin> set (split_slash [] t)" by (auto simp: split_slash_no_slash simple_name_def)
  ultimately have "get_template (env b) (fs u) t = Inr src" by (simp add: get_template_def)
  with write_clean_ok [OF wf _ ne _ _, of "engine x (autoescape (env b)) src c"] ok par fd ORender ne
  show ?thesis by (auto simp: render_def)
next
  case (OCopy s d)
  have ne: "d \<noteq> []" using fd OCopy wf_fs_root [OF wf] by auto
  have cs: "clean_path s" "clean_path d" using ok OCopy by simp_all
  have "s \<noteq> d" using dj OCopy by auto
  then have ns: "\<not> same_file (fs u) s d" using same_file_clean [OF cs] by blast
  from read_file_present [OF wf cs(1)] rp OCopy obtain c where "read_file (fs u) s = Inr c" by auto
  with ns write_clean_ok [OF wf cs(2) ne _ _, of c] par fd OCopy ne show ?thesis
    by (auto simp: copyfile_def)
qed auto

lemma run_completes_gen:
  assumes "wf_fs (fs u)" and "clean_path (loader (env b))" and "\<forall>op \<in> set ops. op_ok op"
    and "parents_ok m D ops"
    and "\<forall>p \<in> set D. fs u p = Some Dir" and "\<forall>p. m p = Some Dir \<longrightarrow> fs u p = Some Dir"
    and "\<forall>op \<in> set ops. \<forall>p \<in> set (made op). \<not> is_file (fs u p)"
    and "\<forall>op \<in> set ops. \<forall>p \<in> set (filed op). fs u p \<noteq> Some Dir \<and> p \<notin> set D"
    and "no_clash ops" and "\<forall>op \<in> set ops. \<forall>q \<in> set (reads b op). is_file (fs u q)"
    and "reads_unwritten b ops"
  shows "\<exists>u'. run x b ops u = Inr u'"
  using assms
proof (induction ops arbitrary: u D)
  case Nil
  then show ?case by simp
next
  case (Cons op ops)
  have nc: "\<And>p op'. op' \<in> set (op # ops) \<Longrightarrow> p \<in> set (made op) \<Longrightarrow> p \<notin> set (filed op')"
    using Cons.prems(9) by (auto simp: no_clash_def)
  have nc': "\<And>p op'. op' \<in> set (op # ops) \<Longrightarrow> p \<in> set (filed op) \<Longrightarrow> p \<notin> set (made op')"
    using Cons.prems(9) by (auto simp: no_clash_def)
  have par: "\<forall>p \<in> set (writes op). p = [] \<or> fs u (butlast p) = Some Dir"
    using Cons.prems(4,5,6) by auto
  have dj: "\<forall>q \<in> set (reads b op). \<forall>p \<in> set (writes op). \<not> prefix p q"
    using Cons.prems(11) by (simp add: reads_unwritten_def)
  from exec_op_completes [where x = x, OF Cons.prems(1,2) _ par _ _ _ dj] Cons.prems(3,7,8,10) obtain u1 where
    s: "exec_op x b op u = Inr u1" and m1: "\<forall>p \<in> set (made op). fs u1 p = Some Dir"
    and f1: "\<forall>p \<in> set (filed op). is_file (fs u1 p)" and fr: "\<forall>p. p \<notin> set (writes op) \<longrightarrow> fs u1 p = fs u p"
    by auto
  have wf1: "wf_fs (fs u1)" using sound_Inr [OF sound_exec_op Cons.prems(1) s] by blast
  have fr': "fs u1 p = fs u p" if "p \<notin> set (made op)" "p \<notin> set (filed op)" for p
    using fr that writes_made_filed [of op] by auto
  have notdir: "fs u1 p \<noteq> Some Dir" if "p \<in> set (filed op)" for p
    using f1 that by (auto simp: is_file_def split: option.splits node.splits)
  have nofile: "\<not> is_file (fs u1 p)" if "p \<in> set (made op)" for p
    using m1 that by (simp add: is_file_def)
  have "\<exists>u'. run x b ops u1 = Inr u'"
  proof (rule Cons.IH [where D = "made op @ D"])
    show "wf_fs (fs u1)" by (rule wf1)
    show "clean_path (loader (env b))" by (rule Cons.prems(2))
    show "\<forall>op \<in> set ops. op_ok op" using Cons.prems(3) by simp
    show "parents_ok m (made op @ D) ops" using Cons.prems(4) by simp
    show "\<forall>p \<in> set (made op @ D). fs u1 p = Some Dir"
      using m1 Cons.prems(5,8) fr' by fastforce
    show "\<forall>p. m p = Some Dir \<longrightarrow> fs u1 p = Some Dir"
      using m1 Cons.prems(6,8) fr' by fastforce
    show "\<forall>op \<in> set ops. \<forall>p \<in> set (made op). \<not> is_file (fs u1 p)"
      using Cons.prems(7) nofile fr' nc' by fastforce
    show "\<forall>op' \<in> set ops. \<forall>p \<in> set (filed op'). fs u1 p \<noteq> Some Dir \<and> p \<notin> set (made op @ D)"
      using Cons.prems(8) notdir fr' nc by fastforce
    show "no_clash ops" using Cons.prems(9) by (simp add: no_clash_def)
    show "\<forall>op' \<in> set ops. \<forall>q \<in> set (reads b op'). is_file (fs u1 q)"
    proof (intro ballI)
      fix op' q assume op': "op' \<in> set ops" and q: "q \<in> set (reads b op')"
      have "q \<notin> set (writes op)"
      proof
        assume w: "q \<in> set (writes op)"
        have "\<forall>q \<in> set (reads b op'). \<forall>p \<in> set (writes op). \<not> prefix p q"
          using Cons.prems(11) op' by (simp add: reads_unwritten_def)
        with q w show False by auto
      qed
      with fr Cons.prems(10) op' q show "is_file (fs u1 q)" by auto
    qed
    show "reads_unwritten b ops" using Cons.prems(11) by (simp add: reads_unwritten_def)
  qed
  with s show ?case by auto
qed

theorem run_completes:
  assumes "wf_fs (fs w)" and "clean_path (loader (env b))" and "\<forall>op \<in> set ops. op_ok op"
    and "parents_ok (fs w) [] ops" and "targets_free (fs w) ops" and "no_clash ops"
    and "reads_present b (fs w) ops" and "reads_unwritten b ops"
  shows "\<exists>w'. run x b ops w = Inr w'"
  using assms by (intro run_completes_gen [where m = "fs w" and D = "[]"])
    (auto simp: targets_free_def reads_present_def)

lemma parents_ok_mono: "set D \<subseteq> set D' \<Longrightarrow> parents_ok m D ops \<Longrightarrow> parents_ok m D' ops"
proof (induction ops arbitrary: D D')
  case Nil
  then show ?case by simp
next
  case (Cons op ops)
  have "set (made op @ D) \<subseteq> set (made op @ D')" using Cons.prems(1) by auto
  with Cons.IH [OF this] Cons.prems show ?case by auto
qed

lemma parents_ok_append:
  "parents_ok m D xs \<Longrightarrow> parents_ok m (concat (map made xs) @ D) ys \<Longrightarrow> parents_ok m D (xs @ ys)"
proof (induction xs arbitrary: D)
  case Nil
  then show ?case by simp
next
  case (Cons x xs)
  have "parents_ok m (concat (map made xs) @ made x @ D) ys"
    by (rule parents_ok_mono [OF _ Cons.prems(2)]) auto
  with Cons show ?case by simp
qed

lemma parents_ok_concat:
  "(\<And>y. y \<in> set ys \<Longrightarrow> parents_ok m D (g y)) \<Longrightarrow> parents_ok m D (concat (map g ys))"
proof (induction ys)
  case Nil
  then show ?case by simp
next
  case (Cons y ys)
  have "parents_ok m (concat (map made (g y)) @ D) (concat (map g ys))"
    by (rule parents_ok_mono [OF _ Cons.IH]) (auto intro: parents_ok_mono [OF _ Cons.prems])
  with Cons.prems show ?case by (simp add: parents_ok_append)
qed

lemma build_ops_split: "build_ops x b r walked = page_ops x b r @ static_ops b walked @ [ODone]"
  by (simp add: build_ops_def page_ops_def)

lemma page_ops_made:
  "layout_ok b r walked \<Longrightarrow> op \<in> set (page_ops x b r) \<Longrightarrow> p \<in> set (made op) \<Longrightarrow> p \<in> set (page_dirs b r)"
  by (auto simp: layout_ok_def page_ops_def page_dirs_def ops_defs)

lemma page_ops_filed:
  "layout_ok b r walked \<Longrightarrow> op \<in> set (page_ops x b r) \<Longrightarrow> p \<in> set (filed op) \<Longrightarrow> p \<in> set (page_files b r)"
  by (auto simp: layout_ok_def page_ops_def page_files_def ops_defs)

lemma static_ops_made:
  "op \<in> set (static_ops b walked) \<Longrightarrow> p \<in> set (made op) \<Longrightarrow> \<exists>rel fns. (rel, fns) \<in> set walked \<and> p = out b @ rel"
  by (auto simp: static_ops_def static_dir_ops_def split: prod.splits)

lemma static_ops_filed:
  "layout_ok b r walked \<Longrightarrow> op \<in> set (static_ops b walked) \<Longrightarrow> p \<in> set (filed op) \<Longrightarrow>
   \<exists>rel fns fn. (rel, fns) \<in> set walked \<and> fn \<in> set fns \<and> p = out b @ rel @ [fn]"
  by (auto simp: layout_ok_def static_ops_def static_dir_ops_def split: prod.splits)

lemma page_dirs_files:
  assumes "layout_ok b r walked"
  shows "set (page_dirs b r) \<inter> set (page_files b r) = {}"
proof (intro equals0I)
  fix p assume a: "p \<in> set (page_dirs b r) \<inter> set (page_files b r)"
  have "out b \<parallel> templates b" using assms by (simp add: layout_ok_def)
  then have np: "\<not> prefix (out b) (templates b @ [''palette-rendered.html''])"
    using parallel_prefixes [of "out b" "templates b" "out b" "templates b @ [''palette-rendered.html'']"] by simp
  have "prefix (out b) p" using a by (auto simp: page_dirs_def)
  with np have "p \<noteq> templates b @ [''palette-rendered.html'']" by auto
  with a show False by (auto simp: page_dirs_def page_files_def)
qed

lemma page_parents:
  assumes lay: "layout_ok b r walked" and po: "m (butlast (out b)) = Some Dir" and pt: "m (templates b) = Some Dir"
  shows "parents_ok m [] (page_ops x b r)"
proof -
  have ids: "\<forall>e \<in> set (all_events r). simple_name (event_id e)"
    "\<forall>g \<in> set (all_groups r). simple_name (slug g)"
    "\<forall>h \<in> set (all_hackathons r). simple_name (hackathon_slug h)"
    using lay by (simp_all add: layout_ok_def)
  have ev: "parents_ok m D (events_ops x b r)" if "out b \<in> set D" for D
    using that ids(1) by (auto simp: events_ops_def event_ops_def butlast_append intro!: parents_ok_concat)
  have gr: "parents_ok m D (groups_ops b r)" if "out b \<in> set D" for D
    using that ids(2) by (auto simp: groups_ops_def group_ops_def butlast_append intro!: parents_ok_concat)
  have hk: "parents_ok m D (hackathons_ops b r)" if "out b \<in> set D" for D
    using that ids(3) by (auto simp: hackathons_ops_def hackathon_ops_def butlast_append intro!: parents_ok_concat)
  have pl: "parents_ok m D (palette_ops b r)" for D
    using pt by (simp add: palette_ops_def)
  have ix: "parents_ok m D (index_ops b r)" if "out b \<in> set D" for D
    using that by (simp add: index_ops_def butlast_append)
  show ?thesis unfolding page_ops_def
    by (intro parents_ok_append) (use po ev gr hk pl ix in auto)
qed

lemma static_made:
  "(rel, fns) \<in> set walked \<Longrightarrow> out b @ rel \<in> set (concat (map made (concat (map (static_dir_ops b) walked))))"
  by (force simp: static_dir_ops_def)

lemma parents_ok_copies:
  "q \<in> set D \<Longrightarrow> \<forall>fn \<in> set fns. simple_name fn \<Longrightarrow>
   parents_ok m D (map (\<lambda>fn. OCopy (pjoin src fn) (pjoin q fn)) fns)"
  by (induction fns) auto

lemma static_parents:
  assumes names: "\<forall>(rel, fns) \<in> set walked. clean_path rel \<and> (\<forall>fn \<in> set fns. simple_name fn)"
    and order: "\<forall>i < length walked. fst (walked ! i) \<noteq> [] \<longrightarrow>
                  (\<exists>j < i. fst (walked ! j) = butlast (fst (walked ! i)))"
    and po: "m (butlast (out b)) = Some Dir"
  shows "parents_ok m D (concat (map (static_dir_ops b) walked))"
  using names order
proof (induction walked rule: rev_induct)
  case Nil
  then show ?case by simp
next
  case (snoc d ws)
  obtain rel fns where d: "d = (rel, fns)" by fastforce
  have ih: "parents_ok m D (concat (map (static_dir_ops b) ws))"
  proof (rule snoc.IH)
    show "\<forall>(rel, fns) \<in> set ws. clean_path rel \<and> (\<forall>fn \<in> set fns. simple_name fn)" using snoc.prems(1) by simp
    show "\<forall>i < length ws. fst (ws ! i) \<noteq> [] \<longrightarrow> (\<exists>j < i. fst (ws ! j) = butlast (fst (ws ! i)))"
    proof (intro allI impI)
      fix i assume i: "i < length ws" and ne: "fst (ws ! i) \<noteq> []"
      with spec [OF snoc.prems(2), of i] show "\<exists>j < i. fst (ws ! j) = butlast (fst (ws ! i))"
        by (auto simp: nth_append)
    qed
  qed
  let ?D = "concat (map made (concat (map (static_dir_ops b) ws))) @ D"
  have par: "butlast (out b @ rel) \<in> set ?D \<or> m (butlast (out b @ rel)) = Some Dir"
  proof (cases "rel = []")
    case True
    with po show ?thesis by simp
  next
    case False
    from spec [OF snoc.prems(2), of "length ws"] d False obtain j where
      j: "j < length ws" and fj: "fst (ws ! j) = butlast rel" by (auto simp: nth_append)
    have "(butlast rel, snd (ws ! j)) \<in> set ws" using j fj by (metis nth_mem prod.collapse)
    from static_made [OF this, of b] False show ?thesis by (simp add: butlast_append)
  qed
  have fns: "\<forall>fn \<in> set fns. simple_name fn" using snoc.prems(1) d by simp
  have "parents_ok m ?D (static_dir_ops b d)"
    using par fns d parents_ok_copies [of "out b @ rel" "(out b @ rel) # ?D" fns m "public b @ rel"]
    by (simp add: static_dir_ops_def)
  with ih show ?case by (simp add: parents_ok_append)
qed

lemma os_walk_dir:
  assumes "os_walk_spec m pub walked" and "(rel, fns) \<in> set walked"
  shows "m (pub @ rel) = Some Dir"
proof -
  have "\<forall>(rel, fns) \<in> set walked. m (pub @ rel) = Some Dir" using assms(1) by (auto simp: os_walk_spec_def)
  with assms(2) show ?thesis by blast
qed

lemma os_walk_file:
  assumes "os_walk_spec m pub walked" and "(rel, fns) \<in> set walked" and "fn \<in> set fns"
  shows "is_file (m (pub @ rel @ [fn]))"
proof -
  have "\<forall>(rel, fns) \<in> set walked. \<forall>fn \<in> set fns. \<exists>c. m (pub @ rel @ [fn]) = Some (File c)"
    using assms(1) by (auto simp: os_walk_spec_def)
  with assms(2,3) obtain c where "m (pub @ rel @ [fn]) = Some (File c)" by fastforce
  then show ?thesis by simp
qed

lemma page_ops_reads:
  "layout_ok b r walked \<Longrightarrow> op \<in> set (page_ops x b r) \<Longrightarrow> q \<in> set (reads b op) \<Longrightarrow>
   \<exists>t \<in> set template_names. q = templates b @ [t]"
  by (auto simp: layout_ok_def page_ops_def template_names_def ops_defs)

lemma static_ops_reads:
  "layout_ok b r walked \<Longrightarrow> op \<in> set (static_ops b walked) \<Longrightarrow> q \<in> set (reads b op) \<Longrightarrow>
   \<exists>rel fns fn. (rel, fns) \<in> set walked \<and> fn \<in> set fns \<and> q = public b @ rel @ [fn]"
  by (auto simp: layout_ok_def static_ops_def static_dir_ops_def split: prod.splits)

lemma page_dirs_out: "p \<in> set (page_dirs b r) \<Longrightarrow> prefix (out b) p"
  by (auto simp: page_dirs_def)

lemma page_files_out:
  "p \<in> set (page_files b r) \<Longrightarrow> (prefix (out b) p \<and> p \<noteq> out b) \<or> p = templates b @ [''palette-rendered.html'']"
  by (auto simp: page_files_def)

lemma build_ops_completes:
  assumes wf: "wf_fs (fs w)" and lay: "layout_ok b r walked"
    and po: "fs w (butlast (out b)) = Some Dir" and od: "\<not> is_file (fs w (out b))"
    and fresh: "\<forall>p. prefix (out b) p \<longrightarrow> p \<noteq> out b \<longrightarrow> fs w p = None"
    and tpl: "\<forall>t \<in> set template_names. is_file (fs w (templates b @ [t]))"
    and prh: "fs w (templates b @ [''palette-rendered.html'']) \<noteq> Some Dir"
    and ow: "os_walk_spec (fs w) (public b) walked" and fits: "static_fits b r walked"
  shows "\<exists>w'. run x b (build_ops x b r walked) w = Inr w'"
proof (rule run_completes)
  let ?ops = "build_ops x b r walked"
  have names: "\<forall>(rel, fns) \<in> set walked. clean_path rel \<and> (\<forall>fn \<in> set fns. simple_name fn)"
    using lay by (simp add: layout_ok_def)
  have where_op: "op \<in> set (page_ops x b r) \<or> op \<in> set (static_ops b walked) \<or> op = ODone"
    if "op \<in> set ?ops" for op
    using that by (auto simp: build_ops_split)
  show "clean_path (loader (env b))" using lay by (simp add: layout_ok_def)
  show "\<forall>op \<in> set ?ops. op_ok op" using build_ops_ok [OF lay] .
  show "reads_unwritten b ?ops" using build_ops_reads_unwritten [OF lay] .
  show "parents_ok (fs w) [] ?ops"
  proof -
    have "fs w (templates b) = Some Dir"
      using tpl wf_fs_parent [OF wf, of "templates b @ [''index.html'']"]
      by (auto simp: template_names_def is_file_def split: option.splits)
    from page_parents [OF lay po this] have "parents_ok (fs w) [] (page_ops x b r)" .
    moreover have ord: "\<forall>i < length walked. fst (walked ! i) \<noteq> [] \<longrightarrow>
        (\<exists>j < i. fst (walked ! j) = butlast (fst (walked ! i)))"
      using ow by (simp add: os_walk_spec_def)
    moreover have "parents_ok (fs w) D (static_ops b walked @ [ODone])" for D
      using static_parents [where m = "fs w" and b = b and D = D, OF names ord po] by (simp add: static_ops_def parents_ok_append)
    ultimately show ?thesis by (simp add: build_ops_split parents_ok_append)
  qed
  show "targets_free (fs w) ?ops"
    unfolding targets_free_def
  proof (intro ballI conjI)
    fix op p assume op: "op \<in> set ?ops"
    { assume p: "p \<in> set (made op)"
      then have "prefix (out b) p"
        using where_op [OF op] page_ops_made [OF lay _ p] static_ops_made [of op b walked p] page_dirs_out by auto
      with fresh od show "\<not> is_file (fs w p)" by (cases "p = out b") (auto simp: is_file_def) }
    { assume p: "p \<in> set (filed op)"
      then have "(prefix (out b) p \<and> p \<noteq> out b) \<or> p = templates b @ [''palette-rendered.html'']"
        using where_op [OF op] page_ops_filed [OF lay _ p] static_ops_filed [OF lay _ p] page_files_out by auto
      with fresh prh show "fs w p \<noteq> Some Dir" by auto }
  qed
  show "reads_present b (fs w) ?ops"
    unfolding reads_present_def
  proof (intro ballI)
    fix op q assume op: "op \<in> set ?ops" and q: "q \<in> set (reads b op)"
    from where_op [OF op] show "is_file (fs w q)"
    proof (elim disjE)
      assume "op \<in> set (page_ops x b r)"
      with page_ops_reads [OF lay this q] tpl show ?thesis by auto
    next
      assume "op \<in> set (static_ops b walked)"
      from static_ops_reads [OF lay this q] obtain rel fns fn where
        "(rel, fns) \<in> set walked" "fn \<in> set fns" "q = public b @ rel @ [fn]" by blast
      with os_walk_file [OF ow] show ?thesis by simp
    next
      assume "op = ODone"
      with q show ?thesis by simp
    qed
  qed
  show "no_clash ?ops"
    unfolding no_clash_def
  proof (intro ballI notI)
    fix op op' p assume op: "op \<in> set ?ops" and op': "op' \<in> set ?ops"
      and pm: "p \<in> set (made op)" and pf: "p \<in> set (filed op')"
    from where_op [OF op] where_op [OF op'] pm pf show False
    proof (elim disjE)
      assume "op \<in> set (page_ops x b r)" "op' \<in> set (page_ops x b r)"
      with page_ops_made [OF lay _ pm] page_ops_filed [OF lay _ pf] page_dirs_files [OF lay] show False by auto
    next
      assume a: "op \<in> set (page_ops x b r)" "op' \<in> set (static_ops b walked)"
      from static_ops_filed [OF lay a(2) pf] obtain rel fns fn where
        r: "(rel, fns) \<in> set walked" "fn \<in> set fns" "p = out b @ rel @ [fn]" by blast
      from fits r(1) have "\<forall>fn \<in> set fns. out b @ rel @ [fn] \<notin> set (page_dirs b r)"
        by (auto simp: static_fits_def)
      with r page_ops_made [OF lay a(1) pm] show False by auto
    next
      assume a: "op \<in> set (static_ops b walked)" "op' \<in> set (page_ops x b r)"
      from static_ops_made [OF a(1) pm] obtain rel fns where
        r: "(rel, fns) \<in> set walked" "p = out b @ rel" by blast
      from fits r(1) have "out b @ rel \<notin> set (page_files b r)" by (auto simp: static_fits_def)
      with r page_ops_filed [OF lay a(2) pf] show False by auto
    next
      assume a: "op \<in> set (static_ops b walked)" "op' \<in> set (static_ops b walked)"
      from static_ops_made [OF a(1) pm] obtain rel fns where
        r1: "(rel, fns) \<in> set walked" "p = out b @ rel" by blast
      from static_ops_filed [OF lay a(2) pf] obtain rel' fns' fn where
        r2: "(rel', fns') \<in> set walked" "fn \<in> set fns'" "p = out b @ rel' @ [fn]" by blast
      from r1 r2 have "rel = rel' @ [fn]" by simp
      with os_walk_dir [OF ow r1(1)] os_walk_file [OF ow r2(1,2)] show False by (simp add: is_file_def)
    qed (use pm pf in auto)
  qed
qed (rule wf)

lemma page_dirs_made:
  assumes lay: "layout_ok b r walked" and p: "p \<in> set (page_dirs b r)"
  shows "OMkdir p \<in> set (page_ops x b r)"
proof -
  have sn: "simple_name ''events''" "simple_name ''groups''" "simple_name ''hackathons''"
    by (simp_all add: simple_name_def)
  have ev: "OMkdir (out b @ [''events'', event_id e]) \<in> set (page_ops x b r)" if "e \<in> set (all_events r)" for e
  proof -
    have "OMkdir (out b @ [''events'', event_id e]) \<in> set (event_ops x r (out b @ [''events'']) e)"
      using lay that by (simp add: event_ops_def layout_ok_def)
    with that sn show ?thesis by (auto simp: page_ops_def events_ops_def)
  qed
  have gr: "OMkdir (out b @ [''groups'', slug g]) \<in> set (page_ops x b r) \<and>
      OMkdir (out b @ [''groups'', slug g, ''events'']) \<in> set (page_ops x b r)" if "g \<in> set (all_groups r)" for g
  proof -
    have "OMkdir (out b @ [''groups'', slug g]) \<in> set (group_ops b r (out b @ [''groups'']) g) \<and>
        OMkdir (out b @ [''groups'', slug g, ''events'']) \<in> set (group_ops b r (out b @ [''groups'']) g)"
      using lay that sn by (simp add: group_ops_def layout_ok_def)
    with that sn show ?thesis by (auto simp: page_ops_def groups_ops_def)
  qed
  have ha: "OMkdir (out b @ [''hackathons'', hackathon_slug h]) \<in> set (page_ops x b r)" if "h \<in> set (all_hackathons r)" for h
  proof -
    have "OMkdir (out b @ [''hackathons'', hackathon_slug h]) \<in> set (hackathon_ops (out b @ [''hackathons'']) h)"
      using lay that by (simp add: hackathon_ops_def layout_ok_def)
    with that sn show ?thesis by (auto simp: page_ops_def hackathons_ops_def)
  qed
  have top: "OMkdir (out b) \<in> set (page_ops x b r)" "OMkdir (out b @ [''events'']) \<in> set (page_ops x b r)"
    "OMkdir (out b @ [''groups'']) \<in> set (page_ops x b r)" "OMkdir (out b @ [''hackathons'']) \<in> set (page_ops x b r)"
    using sn by (simp_all add: page_ops_def events_ops_def groups_ops_def hackathons_ops_def)
  from p have "p = out b \<or> p = out b @ [''events''] \<or> (\<exists>e \<in> set (all_events r). p = out b @ [''events'', event_id e]) \<or>
      p = out b @ [''groups''] \<or>
      (\<exists>g \<in> set (all_groups r). p = out b @ [''groups'', slug g] \<or> p = out b @ [''groups'', slug g, ''events'']) \<or>
      p = out b @ [''hackathons''] \<or> (\<exists>h \<in> set (all_hackathons r). p = out b @ [''hackathons'', hackathon_slug h])"
    unfolding page_dirs_def by (simp add: image_iff) blast
  then show ?thesis using ev gr ha top by blast
qed

text \<open>A directory some completed operation made is a directory at the end.\<close>

lemma run_made_dir:
  assumes "run x b ops w = Inr w'" and "wf_fs (fs w)" and "\<forall>op \<in> set ops. op_ok op"
    and "op \<in> set ops" and "p \<in> set (made op)"
  shows "fs w' p = Some Dir"
  using assms
proof (induction ops arbitrary: w)
  case (Cons c os)
  from Cons.prems(1) obtain w1 where e: "exec_op x b c w = Inr w1" and rs: "run x b os w1 = Inr w'"
    by (auto simp: bindE_eq_Inr_iff)
  from sound_Inr [OF sound_exec_op Cons.prems(2) e] have wf1: "wf_fs (fs w1)" by blast
  show ?case
  proof (cases "op \<in> set os")
    case True
    with Cons.IH [OF rs wf1] Cons.prems(3,5) show ?thesis by simp
  next
    case False
    with Cons.prems(4,5) have c: "c = OMkdir p" by (cases c) auto
    with e Cons.prems(3) mkdir_clean_Inr [of p w w1] have "fs w1 p = Some Dir" by auto
    with sound_Inr [OF sound_run wf1 rs] show ?thesis by (blast intro: kept_dir)
  qed
qed simp

end
