(* ===== verification/Walk.thy ===== *)
theory Walk
  imports FileSystem "HOL-Library.Multiset"
begin

text \<open>
  The directory walk of \<open>copy_static\<close>: \<open>PurePath.relative_to\<close>, and
  \<open>os.walk(top)\<close> as CPython runs it (an explicit stack of directories, each
  popped, listed with \<open>os.scandir\<close>, yielded, and its subdirectories pushed so
  that the first is popped next). The directory listing comes from a finite list
  \<open>ents\<close> of the file system's entries, in the order \<open>scandir\<close> returns them.
  The walk is a \<open>partial_function\<close>, shown to return on every input by the
  multiset order on the depths left below its stack, and to equal the
  recursive pre-order traversal \<open>walk_tree\<close>.
\<close>

section \<open>pathlib: \<open>relative_to\<close>\<close>

text \<open>\<open>PurePath.relative_to(other)\<close>: the components of the path after those of
  \<open>other\<close>, or \<open>ValueError\<close> when \<open>other\<close> is not the path or one of its
  parents.\<close>

fun relative_to :: "path \<Rightarrow> path \<Rightarrow> error + path" where
  "relative_to p [] = Inr p"
| "relative_to [] (c # cs) = Inl ValueError"
| "relative_to (d # ds) (c # cs) = (if d = c then relative_to ds cs else Inl ValueError)"

section \<open>os.scandir and os.walk\<close>

text \<open>The names \<open>os.scandir(d)\<close> lists, in the order of \<open>ents\<close>, split into
  directories and the rest as \<open>os.walk\<close> does with \<open>entry.is_dir()\<close>.\<close>

definition listdir :: "filesystem \<Rightarrow> path list \<Rightarrow> path \<Rightarrow> string list" where
  "listdir m ents d = remdups [last p. p \<leftarrow> ents, p \<noteq> [] \<and> butlast p = d \<and> m p \<noteq> None]"

definition subdirs :: "filesystem \<Rightarrow> path list \<Rightarrow> path \<Rightarrow> string list" where
  "subdirs m ents d = filter (\<lambda>n. m (d @ [n]) = Some Dir) (listdir m ents d)"

definition nondirs :: "filesystem \<Rightarrow> path list \<Rightarrow> path \<Rightarrow> string list" where
  "nondirs m ents d = filter (\<lambda>n. m (d @ [n]) \<noteq> Some Dir) (listdir m ents d)"

type_synonym walk_entry = "path \<times> string list \<times> string list"

text \<open>\<open>os.walk\<close> (d-down, \<open>onerror=None\<close>, no symbolic links): the head of
  the list is the d of Python's stack. A path that \<open>scandir\<close> cannot open
  (it is no directory) is skipped; a directory is yielded with its
  subdirectories and other names, and its subdirectories are pushed in reverse,
  so that the first is popped next.\<close>

partial_function (option) os_walk :: "filesystem \<Rightarrow> path list \<Rightarrow> path list \<Rightarrow> walk_entry list option" where
  "os_walk m ents stack =
     (case stack of
        [] \<Rightarrow> Some []
      | d # rest \<Rightarrow>
          (if m d \<noteq> Some Dir then os_walk m ents rest
           else
             (let dirs = subdirs m ents d
              in Option.bind (os_walk m ents (map (\<lambda>n. d @ [n]) dirs @ rest))
                   (\<lambda>ys. Some ((d, dirs, nondirs m ents d) # ys)))))"

declare os_walk.simps [code]

text \<open>The depth a path may still descend below it among the entries: what the
  walk's stack decreases in the multiset order.\<close>

definition walk_rank :: "path list \<Rightarrow> path \<Rightarrow> nat" where
  "walk_rank ents p = Suc (Max (insert 0 (length ` set ents))) - length p"

definition walk_order :: "path list \<Rightarrow> (path list \<times> path list) set" where
  "walk_order ents = inv_image (mult {(x, y). x < y}) (\<lambda>st. mset (map (walk_rank ents) st))"

text \<open>The pre-order traversal \<open>os.walk\<close> implements: the directory, then the
  traversal of each subdirectory in turn.\<close>

function walk_tree :: "filesystem \<Rightarrow> path list \<Rightarrow> path \<Rightarrow> walk_entry list" where
  "walk_tree m ents d =
     (if m d \<noteq> Some Dir then []
      else (d, subdirs m ents d, nondirs m ents d) #
             concat (map (\<lambda>n. walk_tree m ents (d @ [n])) (subdirs m ents d)))"
  by pat_completeness auto
termination
proof (relation "measure (\<lambda>(m, ents, d). walk_rank ents d)")
  fix m ents d n
  assume "n \<in> set (subdirs m ents d)"
  then have "d @ [n] \<in> set ents" by (auto simp: subdirs_def listdir_def)
  then have "length (d @ [n]) \<le> Max (insert 0 (length ` set ents))"
    by (intro Max_ge) (auto simp: image_iff intro: bexI [of _ "d @ [n]"])
  then show "((m, ents, d @ [n]), m, ents, d) \<in> measure (\<lambda>(m, ents, d). walk_rank ents d)"
    by (simp add: walk_rank_def)
qed simp

declare walk_tree.simps [simp del]

text \<open>\<open>parents_first r S ps\<close>: every path of \<open>ps\<close> but the root \<open>r\<close> comes
  after its parent, which may also be in \<open>S\<close>, the paths seen before.\<close>

fun parents_first :: "path \<Rightarrow> path set \<Rightarrow> path list \<Rightarrow> bool" where
  "parents_first r S [] = True"
| "parents_first r S (p # ps) = ((p = r \<or> butlast p \<in> S) \<and> parents_first r (insert p S) ps)"

section \<open>Termination and the pre-order traversal\<close>

lemma set_listdir: "n \<in> set (listdir m ents d) \<longleftrightarrow> d @ [n] \<in> set ents \<and> m (d @ [n]) \<noteq> None"
proof
  assume "d @ [n] \<in> set ents \<and> m (d @ [n]) \<noteq> None"
  then show "n \<in> set (listdir m ents d)"
    unfolding listdir_def by (auto simp: image_iff intro!: bexI [of _ "d @ [n]"])
qed (auto simp: listdir_def)

lemma set_subdirs: "n \<in> set (subdirs m ents d) \<longleftrightarrow> d @ [n] \<in> set ents \<and> m (d @ [n]) = Some Dir"
  by (auto simp: subdirs_def set_listdir)

lemma set_nondirs: "n \<in> set (nondirs m ents d) \<longleftrightarrow> d @ [n] \<in> set ents \<and> (\<exists>c. m (d @ [n]) = Some (File c))"
proof (cases "m (d @ [n])")
  case (Some a)
  then show ?thesis by (cases a) (auto simp: nondirs_def set_listdir)
qed (auto simp: nondirs_def set_listdir)

lemma walk_rank_child: "d @ [n] \<in> set ents \<Longrightarrow> walk_rank ents (d @ [n]) < walk_rank ents d"
proof -
  assume "d @ [n] \<in> set ents"
  then have "length (d @ [n]) \<le> Max (insert 0 (length ` set ents))"
    by (intro Max_ge) (auto simp: image_iff intro: bexI [of _ "d @ [n]"])
  then show ?thesis by (simp add: walk_rank_def)
qed


lemma wf_walk_order: "wf (walk_order ents)"
  unfolding walk_order_def by (intro wf_inv_image wf_mult wf_less)

lemma walk_push_less:
  assumes "\<forall>p \<in> set kids. walk_rank ents p < walk_rank ents d"
  shows "(kids @ rest, d # rest) \<in> walk_order ents"
proof -
  have "(mset (map (walk_rank ents) rest) + mset (map (walk_rank ents) kids),
         mset (map (walk_rank ents) rest) + {#walk_rank ents d#}) \<in> mult {(x, y). x < y}"
    using assms by (intro one_step_implies_mult) auto
  then show ?thesis by (simp add: walk_order_def add.commute)
qed

lemma walk_push_children:
  "(map (\<lambda>n. d @ [n]) (subdirs m ents d) @ rest, d # rest) \<in> walk_order ents"
  by (rule walk_push_less) (auto simp: set_subdirs intro: walk_rank_child)

lemma walk_pop: "(rest, d # rest) \<in> walk_order ents"
  using walk_push_less [of "[]"] by simp

text \<open>Termination of \<open>os.walk\<close>: the stack-driven walk returns on every
  file system, entry list and initial stack. Each step pops a path and pushes
  only its subdirectories, entries one component longer, so the multiset of the
  depths left below the paths on the stack decreases.\<close>

lemma os_walk_terminates: "\<exists>ys. os_walk m ents stack = Some ys"
proof (induction stack rule: wf_induct_rule [OF wf_walk_order [of ents]])
  case (1 stack)
  show ?case
  proof (cases stack)
    case Nil
    then show ?thesis by (simp add: os_walk.simps)
  next
    case (Cons d rest)
    have "(rest, stack) \<in> walk_order ents"
      and "(map (\<lambda>n. d @ [n]) (subdirs m ents d) @ rest, stack) \<in> walk_order ents"
      using Cons walk_pop walk_push_children by auto
    with 1 obtain ys1 ys2 where "os_walk m ents rest = Some ys1"
      and "os_walk m ents (map (\<lambda>n. d @ [n]) (subdirs m ents d) @ rest) = Some ys2" by blast
    with Cons show ?thesis by (simp add: os_walk.simps [of m ents "d # rest"] Let_def)
  qed
qed

lemma os_walk_stack: "os_walk m ents stack = Some (concat (map (walk_tree m ents) stack))"
proof (induction stack rule: wf_induct_rule [OF wf_walk_order [of ents]])
  case (1 stack)
  show ?case
  proof (cases stack)
    case Nil
    then show ?thesis by (simp add: os_walk.simps)
  next
    case (Cons d rest)
    have "(rest, stack) \<in> walk_order ents"
      and "(map (\<lambda>n. d @ [n]) (subdirs m ents d) @ rest, stack) \<in> walk_order ents"
      using Cons walk_pop walk_push_children by auto
    with 1 Cons show ?thesis
      by (auto simp: os_walk.simps [of m ents "d # rest"] Let_def comp_def walk_tree.simps [of m ents d])
  qed
qed

section \<open>What the walk yields\<close>

lemma walk_tree_Dir:
  "m d = Some Dir \<Longrightarrow> walk_tree m ents d =
     (d, subdirs m ents d, nondirs m ents d) # concat (map (\<lambda>n. walk_tree m ents (d @ [n])) (subdirs m ents d))"
  by (simp add: walk_tree.simps)

lemma walk_tree_not_Dir [simp]: "m d \<noteq> Some Dir \<Longrightarrow> walk_tree m ents d = []"
  by (simp add: walk_tree.simps)

lemma prefix_snoc_same: "prefix (d @ [n]) p \<Longrightarrow> prefix (d @ [n']) p \<Longrightarrow> n = n'"
  by (auto simp: prefix_def)

text \<open>Every triple the walk yields is a directory below its top, with the
  listing \<open>scandir\<close> gives for it.\<close>

lemma walk_tree_entries:
  "e \<in> set (walk_tree m ents d) \<Longrightarrow>
     prefix d (fst e) \<and> m (fst e) = Some Dir \<and> e = (fst e, subdirs m ents (fst e), nondirs m ents (fst e))"
proof (induction m ents d rule: walk_tree.induct)
  case (1 m ents d)
  show ?case
  proof (cases "m d = Some Dir")
    case True
    show ?thesis
    proof (cases "e = (d, subdirs m ents d, nondirs m ents d)")
      case False
      with 1(2) True obtain n where n: "n \<in> set (subdirs m ents d)" "e \<in> set (walk_tree m ents (d @ [n]))"
        by (auto simp: walk_tree_Dir)
      from 1(1) [OF _ n] True show ?thesis by (auto simp: prefix_def)
    qed (use True in simp)
  qed (use 1 in simp)
qed

lemma distinct_subdirs: "distinct (subdirs m ents d)"
  by (simp add: subdirs_def listdir_def)

lemma distinct_nondirs: "distinct (nondirs m ents d)"
  by (simp add: nondirs_def listdir_def)

lemma walk_tree_distinct: "distinct (map fst (walk_tree m ents d))"
proof (induction m ents d rule: walk_tree.induct)
  case (1 m ents d)
  show ?case
  proof (cases "m d = Some Dir")
    case True
    let ?T = "\<lambda>n. walk_tree m ents (d @ [n])"
    have below: "prefix (d @ [n]) (fst e)" if "e \<in> set (?T n)" for n e
      using walk_tree_entries [OF that] by simp
    have "distinct (map fst (concat (map ?T ns)))"
      if "set ns \<subseteq> set (subdirs m ents d)" and "distinct ns" for ns
      using that
    proof (induction ns)
      case (Cons n ns)
      have disj: "fst e \<noteq> fst e'" if e: "e \<in> set (?T n)" and e': "e' \<in> set (concat (map ?T ns))" for e e'
      proof
        assume eq: "fst e = fst e'"
        from e' obtain n' where n': "n' \<in> set ns" "e' \<in> set (?T n')" by auto
        from below [OF e] below [OF n'(2)] eq have "n = n'" by (auto intro: prefix_snoc_same)
        with n'(1) Cons.prems(2) show False by simp
      qed
      have "distinct (map fst (?T n))" using 1 [of n] True Cons.prems(1) by simp
      moreover have "distinct (map fst (concat (map ?T ns)))" using Cons.IH Cons.prems by simp
      moreover have "set (map fst (?T n)) \<inter> set (map fst (concat (map ?T ns))) = {}"
        using disj by fastforce
      ultimately show ?case by simp
    qed simp
    moreover have "d \<notin> set (map fst (concat (map ?T (subdirs m ents d))))"
      using below by (fastforce simp: prefix_def)
    ultimately show ?thesis using True by (simp add: walk_tree_Dir distinct_subdirs)
  qed simp
qed

lemma parents_first_append:
  "parents_first r S (xs @ ys) \<longleftrightarrow> parents_first r S xs \<and> parents_first r (S \<union> set xs) ys"
  by (induction xs arbitrary: S) auto

lemma parents_first_mono: "parents_first r S xs \<Longrightarrow> S \<subseteq> S' \<Longrightarrow> parents_first r S' xs"
proof (induction xs arbitrary: S S')
  case (Cons p ps)
  then show ?case using Cons.IH [of "insert p S" "insert p S'"] by auto
qed simp

lemma parents_first_nth:
  "parents_first r S ps \<Longrightarrow> i < length ps \<Longrightarrow> ps ! i \<noteq> r \<Longrightarrow>
     butlast (ps ! i) \<in> S \<or> (\<exists>j < i. ps ! j = butlast (ps ! i))"
proof (induction ps arbitrary: S i)
  case (Cons p ps)
  show ?case
  proof (cases i)
    case (Suc k)
    with Cons.IH [of "insert p S" k] Cons.prems show ?thesis by (auto intro: exI [of _ "Suc _"])
  qed (use Cons.prems in auto)
qed simp

text \<open>The walk yields each directory after its parent.\<close>

lemma walk_tree_parents_first:
  "d = r \<or> butlast d \<in> S \<Longrightarrow> parents_first r S (map fst (walk_tree m ents d))"
proof (induction m ents d arbitrary: S rule: walk_tree.induct)
  case (1 m ents d)
  show ?case
  proof (cases "m d = Some Dir")
    case True
    let ?T = "\<lambda>n. walk_tree m ents (d @ [n])"
    have "parents_first r S' (map fst (concat (map ?T ns)))"
      if "set ns \<subseteq> set (subdirs m ents d)" and "d \<in> S'" for ns S'
      using that
    proof (induction ns arbitrary: S')
      case (Cons n ns)
      have "parents_first r S' (map fst (?T n))" using 1(1) [of n S'] True Cons.prems by simp
      moreover have "parents_first r (S' \<union> set (map fst (?T n))) (map fst (concat (map ?T ns)))"
        using Cons.IH Cons.prems by simp
      ultimately show ?case by (simp add: parents_first_append)
    qed simp
    with 1(2) True show ?thesis by (simp add: walk_tree_Dir)
  qed simp
qed

text \<open>Every directory below the top is reached, the files it holds listed with
  it, when the entries list every path of the file system.\<close>

lemma walk_tree_closed:
  "(q, ds, fns) \<in> set (walk_tree m ents d) \<Longrightarrow> n \<in> set ds \<Longrightarrow>
     set (walk_tree m ents (q @ [n])) \<subseteq> set (walk_tree m ents d)"
proof (induction m ents d rule: walk_tree.induct)
  case (1 m ents d)
  show ?case
  proof (cases "m d = Some Dir")
    case True
    show ?thesis
    proof (cases "q = d")
      case True
      have "ds = subdirs m ents q" using walk_tree_entries [OF 1(2)] by simp
      with 1(3) \<open>q = d\<close> \<open>m d = Some Dir\<close> show ?thesis by (auto simp: walk_tree_Dir)
    next
      case False
      with 1(2) True obtain c where c: "c \<in> set (subdirs m ents d)" "(q, ds, fns) \<in> set (walk_tree m ents (d @ [c]))"
        by (auto simp: walk_tree_Dir)
      from 1(1) [OF _ c 1(3)] True c show ?thesis by (auto simp: walk_tree_Dir)
    qed
  qed (use 1 in simp)
qed

lemma walk_tree_reaches:
  assumes wf: "wf_fs m" and ents: "dom m \<subseteq> set ents" and top: "m d = Some Dir"
  shows "m (d @ rel) = Some Dir \<Longrightarrow> (d @ rel, subdirs m ents (d @ rel), nondirs m ents (d @ rel)) \<in> set (walk_tree m ents d)"
proof (induction rel rule: rev_induct)
  case Nil
  with top show ?case by (simp add: walk_tree_Dir)
next
  case (snoc n rel)
  from snoc.prems have "m ((d @ rel) @ [n]) = Some Dir" by simp
  from wf_fs_parent [OF wf this] have par: "m (d @ rel) = Some Dir" unfolding butlast_snoc by simp
  have "n \<in> set (subdirs m ents (d @ rel))"
    using snoc.prems ents by (auto simp: set_subdirs)
  with walk_tree_closed [OF snoc.IH [OF par]]
  have "set (walk_tree m ents (d @ rel @ [n])) \<subseteq> set (walk_tree m ents d)" by simp
  moreover have "hd (walk_tree m ents (d @ rel @ [n])) \<in> set (walk_tree m ents (d @ rel @ [n]))"
    using snoc.prems by (simp add: walk_tree_Dir)
  ultimately show ?case using snoc.prems by (simp only: walk_tree_Dir list.sel append_assoc) blast
qed


section \<open>How much the walk yields\<close>

lemma walk_tree_in_ents: "e \<in> set (walk_tree m ents d) \<Longrightarrow> fst e = d \<or> fst e \<in> set ents"
proof (induction m ents d rule: walk_tree.induct)
  case (1 m ents d)
  show ?case
  proof (cases "m d = Some Dir \<and> e \<noteq> (d, subdirs m ents d, nondirs m ents d)")
    case True
    with 1(2) obtain n where n: "n \<in> set (subdirs m ents d)" "e \<in> set (walk_tree m ents (d @ [n]))"
      by (auto simp: walk_tree_Dir)
    with 1(1) [OF _ n] True show ?thesis by (auto simp: set_subdirs)
  qed (use 1(2) in \<open>auto simp: walk_tree.simps [of m ents d] split: if_splits\<close>)
qed

text \<open>A bound on the walk: \<open>os.walk\<close> returns after yielding at most one
  triple per entry of the file system and one for its top, so \<open>copy_static\<close>
  makes at most that many directories.\<close>

lemma os_walk_bound: "\<exists>ys. os_walk m ents [d] = Some ys \<and> length ys \<le> Suc (length ents)"
proof -
  let ?ps = "map fst (walk_tree m ents d)"
  have "length (walk_tree m ents d) = card (set ?ps)"
    using distinct_card [OF walk_tree_distinct [of m ents d]] by simp
  also have "\<dots> \<le> card (insert d (set ents))"
    by (rule card_mono) (auto dest: walk_tree_in_ents)
  also have "\<dots> \<le> Suc (card (set ents))" by (simp add: card_insert_if)
  also have "\<dots> \<le> Suc (length ents)" using card_length [of ents] by simp
  finally show ?thesis using os_walk_stack [of m ents "[d]"] by simp
qed

section \<open>The walk reads only the tree below its top\<close>

lemma listdir_agree:
  assumes "\<forall>n. m' (d @ [n]) = m (d @ [n])"
  shows "listdir m' ents d = listdir m ents d"
proof -
  have "m' p = m p" if "p \<noteq> []" and "butlast p = d" for p
    using assms [rule_format, of "last p"] that by (metis append_butlast_last_id)
  then show ?thesis unfolding listdir_def by (induction ents) auto
qed

lemma walk_tree_agree:
  "\<forall>p. prefix d p \<longrightarrow> m' p = m p \<Longrightarrow> walk_tree m' ents d = walk_tree m ents d"
proof (induction m ents d rule: walk_tree.induct)
  case (1 m ents d)
  have ch: "\<forall>n. m' (d @ [n]) = m (d @ [n])" using 1(2) by simp
  then have "subdirs m' ents d = subdirs m ents d" and "nondirs m' ents d = nondirs m ents d"
    using listdir_agree [OF ch, of ents] by (simp_all add: subdirs_def nondirs_def)
  moreover have "walk_tree m' ents (d @ [n]) = walk_tree m ents (d @ [n])"
    if "m d = Some Dir" and "n \<in> set (subdirs m ents d)" for n
    using 1(1) [OF _ that(2)] 1(2) that(1) by (auto simp: prefix_def)
  moreover have "m' d = m d" using 1(2) by simp
  ultimately show ?case
    by (auto simp: walk_tree.simps [of m' ents d] walk_tree.simps [of m ents d] intro!: arg_cong [of _ _ concat] map_cong)
qed

section \<open>Relative paths\<close>

lemma relative_to_prefix: "relative_to q p = (if prefix p q then Inr (drop (length p) q) else Inl ValueError)"
  by (induction q p rule: relative_to.induct) auto

text \<open>Round trip of \<open>relative_to\<close> as \<open>copy_static\<close> uses it: a path
  made relative to \<open>other\<close> gives the path back when joined onto \<open>other\<close>, and a
  path joined onto \<open>other\<close> is made relative to it again; any other path raises
  \<open>ValueError\<close>.\<close>

lemma relative_to_roundtrip: "relative_to q p = Inr r \<longleftrightarrow> q = p @ r"
  by (induction q p arbitrary: r rule: relative_to.induct) auto

end
