(* ===== verification/StaticCopy.thy ===== *)
theory StaticCopy
  imports Walk Passes
begin

text \<open>
  \<open>SiteBuilder.copy_static\<close> as the code writes it: the absolute \<open>dirpath\<close>
  each step of \<open>os.walk(self.public)\<close> yields, made relative with
  \<open>relative_to\<close>, and each file opened at \<open>os.path.join(dirpath, filename)\<close>.
  It is the relative-path model \<open>copy_static\<close> of \<open>Passes\<close> run on the walk's
  listing, and that listing meets \<open>os_walk_spec\<close>, the contract the rest of the
  development assumes of \<open>os.walk\<close>.
\<close>

definition copy_static_os_dir :: "site_builder \<Rightarrow> walk_entry \<Rightarrow> world \<Rightarrow> outcome" where
  "copy_static_os_dir b e w =
     (case e of (dirpath, _, filenames) \<Rightarrow>
       (case relative_to dirpath (public b) of
          Inl err \<Rightarrow> Inl (err, w)
        | Inr relpath \<Rightarrow>
            (let outpath = out b @ relpath
             in bindE (mkdir outpath w)
                  (foreachE (\<lambda>filename. copyfile (pjoin dirpath filename) (pjoin outpath filename))
                     filenames))))"

text \<open>The loop over the walk, which lists the file system as it is when the
  loop starts (\<open>None\<close> would be a walk that does not return).\<close>

definition copy_static_os :: "site_builder \<Rightarrow> path list \<Rightarrow> world \<Rightarrow> outcome option" where
  "copy_static_os b ents w =
     (let w = say ''Copying static files from `public` to `out`'' w
      in map_option (\<lambda>walked. foreachE (copy_static_os_dir b) walked w) (os_walk (fs w) ents [public b]))"

text \<open>The listing as \<open>copy_static\<close> of \<open>Passes\<close> takes it: each directory
  relative to the top, with its files.\<close>

definition rel_listing :: "path \<Rightarrow> walk_entry list \<Rightarrow> (path \<times> string list) list" where
  "rel_listing pub ys = map (\<lambda>(dirpath, dirs, filenames). (drop (length pub) dirpath, filenames)) ys"

text \<open>A static tree with a subdirectory, and the list of its entries.\<close>

definition ex_static_fs :: filesystem where
  "ex_static_fs = ex_fs([''svc'', ''public'', ''img''] \<mapsto> Dir, [''svc'', ''public'', ''img'', ''logo.png''] \<mapsto> File ''PNG'')"

definition ex_static_ents :: "path list" where
  "ex_static_ents =
     [[], [''svc''], [''svc'', ''templates''], [''svc'', ''templates'', ''index.html''],
      [''svc'', ''templates'', ''event.html''], [''svc'', ''templates'', ''group.html''],
      [''svc'', ''templates'', ''group_events.html''], [''svc'', ''templates'', ''hackathon.html''],
      [''svc'', ''templates'', ''palette.html''], [''svc'', ''public''], [''svc'', ''public'', ''site.css''],
      [''svc'', ''public'', ''img''], [''svc'', ''public'', ''img'', ''logo.png'']]"

text \<open>A builder whose service directory does not exist, so it has no static
  tree.\<close>

definition ex_builder_nosvc :: site_builder where
  "ex_builder_nosvc = init_site_builder 0 [''out''] [''nosvc'']"

section \<open>The code's loop is the relative-path model\<close>

lemma copy_static_os_dir_rel:
  "copy_static_os_dir b (public b @ rel, ds, fns) = copy_static_dir b (rel, fns)"
  by (simp add: copy_static_os_dir_def copy_static_dir_def relative_to_prefix fun_eq_iff)

lemma walk_tree_under: "e \<in> set (walk_tree m ents pub) \<Longrightarrow> \<exists>rel ds fns. e = (pub @ rel, ds, fns)"
  using walk_tree_entries [of e m ents pub] by (cases e) (auto simp: prefix_def)

lemma foreachE_copy_static_os:
  "\<forall>e \<in> set ys. \<exists>rel ds fns. e = (public b @ rel, ds, fns) \<Longrightarrow>
     foreachE (copy_static_os_dir b) ys w = foreachE (copy_static_dir b) (rel_listing (public b) ys) w"
  by (induction ys arbitrary: w) (auto simp: rel_listing_def copy_static_os_dir_rel bindE_def split: sum.split)

lemma copy_static_os_walked:
  assumes "os_walk (fs w) ents [public b] = Some ys"
  shows "copy_static_os b ents w = Some (copy_static b (rel_listing (public b) ys) w)"
proof -
  have ys: "ys = walk_tree (fs w) ents (public b)" using assms os_walk_stack [of "fs w" ents "[public b]"] by simp
  have "\<forall>e \<in> set ys. \<exists>rel ds fns. e = (public b @ rel, ds, fns)" unfolding ys by (intro ballI walk_tree_under)
  with assms show ?thesis by (simp add: copy_static_os_def copy_static_def foreachE_copy_static_os)
qed

text \<open>C23. Equivalence of \<open>copy_static\<close> as the code writes it (the absolute
  \<open>dirpath\<close> of each step of the walk, \<open>relative_to\<close>, \<open>os.path.join\<close>) with the
  relative-path model \<open>copy_static\<close> of \<open>Passes\<close> run on the pre-order listing the
  walk yields: \<open>relative_to\<close> never raises there, since every \<open>dirpath\<close> lies
  below \<open>public\<close>, and the walk always returns.\<close>

theorem copy_static_os_eq:
  "copy_static_os b ents w = Some (copy_static b (rel_listing (public b) (walk_tree (fs w) ents (public b))) w)"
  using copy_static_os_walked os_walk_stack [of "fs w" ents "[public b]"] by simp

section \<open>The walk meets the contract of \<open>os.walk\<close>\<close>

lemma rel_listing_nth: "i < length ys \<Longrightarrow> fst (rel_listing pub ys ! i) = drop (length pub) (fst (ys ! i))"
  by (cases "ys ! i") (simp add: rel_listing_def)

lemma set_rel_listing: "(rel, fns) \<in> set (rel_listing pub ys) \<longleftrightarrow> (\<exists>ds. (pub @ rel, ds, fns) \<in> set ys)"
  if "\<forall>e \<in> set ys. \<exists>rel ds fns. e = (pub @ rel, ds, fns)"
  using that by (force simp: rel_listing_def)

lemma walk_tree_rel_distinct: "distinct (map fst (rel_listing pub (walk_tree m ents pub)))"
proof -
  have "map fst (rel_listing pub (walk_tree m ents pub)) = map (drop (length pub)) (map fst (walk_tree m ents pub))"
    by (simp add: rel_listing_def case_prod_beta)
  moreover have "inj_on (drop (length pub)) (set (map fst (walk_tree m ents pub)))"
    by (rule inj_onI) (force dest!: walk_tree_under)
  then have "distinct (map (drop (length pub)) (map fst (walk_tree m ents pub)))"
    by (intro distinct_map [THEN iffD2] conjI walk_tree_distinct)
  ultimately show ?thesis by simp
qed

lemma walk_tree_rel_parents:
  assumes "i < length (rel_listing pub (walk_tree m ents pub))"
    and "fst (rel_listing pub (walk_tree m ents pub) ! i) \<noteq> []"
  shows "\<exists>j < i. fst (rel_listing pub (walk_tree m ents pub) ! j) = butlast (fst (rel_listing pub (walk_tree m ents pub) ! i))"
proof -
  let ?ps = "map fst (walk_tree m ents pub)"
  have i: "i < length ?ps" using assms(1) by (simp add: rel_listing_def)
  obtain rel ds fns where e: "walk_tree m ents pub ! i = (pub @ rel, ds, fns)"
    using walk_tree_under [OF nth_mem [OF i [simplified]]] by blast
  with assms(2) i have "rel \<noteq> []" by (simp add: rel_listing_nth)
  with e i have "?ps ! i \<noteq> pub" by simp
  with parents_first_nth [OF walk_tree_parents_first [of pub pub "{}"] i]
  obtain j where j: "j < i" "?ps ! j = butlast (?ps ! i)" by auto
  moreover have bl: "butlast (pub @ rel) = pub @ butlast rel" using \<open>rel \<noteq> []\<close> by (simp add: butlast_append)
  ultimately have "fst (walk_tree m ents pub ! j) = pub @ butlast rel" using e i by simp
  with j e i bl show ?thesis by (intro exI [of _ j]) (simp add: rel_listing_nth)
qed

lemma walk_tree_meets_spec:
  assumes wf: "wf_fs m" and ents: "dom m \<subseteq> set ents" and names: "\<forall>p \<in> dom m. clean_path p"
    and top: "m pub = Some Dir"
  shows "os_walk_spec m pub (rel_listing pub (walk_tree m ents pub))"
proof -
  obtain ys where ys: "ys = walk_tree m ents pub" by simp
  have under: "\<forall>e \<in> set ys. \<exists>rel ds fns. e = (pub @ rel, ds, fns)"
    unfolding ys by (intro ballI walk_tree_under)
  have dirs: "clean_path rel \<and> m (pub @ rel) = Some Dir \<and> distinct fns \<and>
      (\<forall>fn \<in> set fns. simple_name fn \<and> (\<exists>c. m (pub @ rel @ [fn]) = Some (File c)))"
    if "(rel, fns) \<in> set (rel_listing pub ys)" for rel fns
  proof -
    from that have "\<exists>ds. (pub @ rel, ds, fns) \<in> set ys" by (simp only: set_rel_listing [OF under])
    then obtain ds where e: "(pub @ rel, ds, fns) \<in> set (walk_tree m ents pub)" by (auto simp: ys)
    then have d: "m (pub @ rel) = Some Dir" and f: "fns = nondirs m ents (pub @ rel)"
      using walk_tree_entries [OF e] by auto
    have "clean_path (pub @ rel)" using names [rule_format, OF domI, OF d] .
    moreover have "simple_name fn \<and> (\<exists>c. m (pub @ rel @ [fn]) = Some (File c))" if "fn \<in> set fns" for fn
    proof -
      from that f obtain c where c: "m (pub @ rel @ [fn]) = Some (File c)" by (auto simp: set_nondirs)
      have "clean_path (pub @ rel @ [fn])" using names [rule_format, OF domI, OF c] .
      with c show ?thesis by simp
    qed
    ultimately show ?thesis using d f distinct_nondirs by simp
  qed
  have cover: "\<exists>fns. (rel, fns) \<in> set (rel_listing pub ys) \<and> fn \<in> set fns"
    if f: "m (pub @ rel @ [fn]) = Some (File c)" for rel fn c
  proof -
    from f have "m ((pub @ rel) @ [fn]) = Some (File c)" by simp
    from wf_fs_parent [OF wf this] have "m (pub @ rel) = Some Dir" unfolding butlast_snoc by simp
    from walk_tree_reaches [OF wf ents top this]
    have "(pub @ rel, subdirs m ents (pub @ rel), nondirs m ents (pub @ rel)) \<in> set ys" by (simp add: ys)
    moreover have "fn \<in> set (nondirs m ents (pub @ rel))" using f ents by (auto simp: set_nondirs)
    ultimately show ?thesis by (auto simp only: set_rel_listing [OF under])
  qed
  have "os_walk_spec m pub (rel_listing pub ys)" unfolding os_walk_spec_def
  proof (intro conjI)
    show "\<forall>i < length (rel_listing pub ys). fst (rel_listing pub ys ! i) \<noteq> [] \<longrightarrow>
        (\<exists>j < i. fst (rel_listing pub ys ! j) = butlast (fst (rel_listing pub ys ! i)))"
      using walk_tree_rel_parents ys by blast
    show "\<forall>(rel, fns) \<in> set (rel_listing pub ys). clean_path rel \<and> m (pub @ rel) = Some Dir \<and> distinct fns \<and>
        (\<forall>fn \<in> set fns. simple_name fn \<and> (\<exists>c. m (pub @ rel @ [fn]) = Some (File c)))"
      using dirs by blast
    show "\<forall>rel fn c. m (pub @ rel @ [fn]) = Some (File c) \<longrightarrow>
        (\<exists>fns. (rel, fns) \<in> set (rel_listing pub ys) \<and> fn \<in> set fns)"
      using cover by blast
    show "distinct (map fst (rel_listing pub ys))" using walk_tree_rel_distinct ys by simp
  qed (use top ys in \<open>simp_all add: walk_tree_Dir rel_listing_def\<close>)
  with ys show ?thesis by simp
qed

text \<open>The contract of \<open>os.walk\<close> that \<open>copy_static\<close> relies on: on a
  well-formed file system whose entries all have plain names and are all listed
  by \<open>scandir\<close>, the walk from the public directory yields, made relative to it,
  the public directory first, each directory below it once and after its parent,
  each with exactly the plain files it holds; that is, \<open>os_walk_spec\<close>.\<close>

lemma os_walk_meets_spec:
  assumes wf: "wf_fs m" and ents: "dom m \<subseteq> set ents" and names: "\<forall>p \<in> dom m. clean_path p"
    and top: "m pub = Some Dir" and walk: "os_walk m ents [pub] = Some ys"
  shows "os_walk_spec m pub (rel_listing pub ys)"
  using walk_tree_meets_spec [OF wf ents names top] walk os_walk_stack [of m ents "[pub]"] by simp

section \<open>A missing static tree\<close>

text \<open>C25. A missing static tree is no error: when \<open>public\<close> is not a
  directory (absent, or a plain file), \<open>os.walk\<close>'s \<open>scandir\<close> fails, the
  error is dropped (\<open>onerror=None\<close>), the walk yields nothing, and
  \<open>copy_static\<close> prints its line, copies nothing and returns.\<close>

theorem copy_static_os_missing:
  assumes "fs w (public b) \<noteq> Some Dir"
  shows "copy_static_os b ents w = Some (Inr (say ''Copying static files from `public` to `out`'' w))"
  using assms by (simp add: copy_static_os_def os_walk.simps [of _ _ "[public b]"] os_walk.simps [of _ _ "[]"])

theorem copy_static_os_missing_witness:
  "fs ex_world (public ex_builder_nosvc) \<noteq> Some Dir \<and>
   copy_static_os ex_builder_nosvc ex_static_ents ex_world =
     Some (Inr (say ''Copying static files from `public` to `out`'' ex_world))"
proof -
  have "fs ex_world (public ex_builder_nosvc) \<noteq> Some Dir"
    by (simp add: ex_builder_nosvc_def init_site_builder_def ex_world_def ex_fs_def step_simps)
  with copy_static_os_missing [OF this, where ents = ex_static_ents] show ?thesis by simp
qed

end
