(* ===== verification/Spec2Isabelle.thy ===== *)
theory Spec2Isabelle
  imports Plan StaticCopy
begin

text \<open>
  \<^bold>\<open>A verification model of the techcity static-site builder.\<close>

  \<^bold>\<open>The program.\<close> \<open>src/techcity/services/builder/build.py\<close> holds the module
  function \<open>build()\<close> and the class \<open>SiteBuilder\<close>. \<open>build()\<close> reads the clock
  once and constructs a builder on the output directory; \<open>SiteBuilder.build\<close>
  creates the output root, builds the three repositories, and runs five passes
  in a fixed order (\<open>render_index\<close>, \<open>render_events\<close>, \<open>render_groups\<close>,
  \<open>render_hackathons\<close>, \<open>render_palette\<close>) and then \<open>copy_static\<close>, reporting
  the elapsed time. Every page is written through \<open>SiteBuilder.render\<close>
  (Jinja template lookup, then a whole-file write). Nothing is caught: the first
  exception aborts the build, and nothing already written is undone.
  \<open>src/techcity/events/__init__.py\<close> declares the event-bus messages.

  \<^bold>\<open>Theories and how they map to the code.\<close>
  \<^item> \<open>Prelude\<close>: instants (microseconds, \<open>int\<close>), paths (component lists), the
    \<open>error\<close> datatype of the exceptions that can escape, \<open>bindE\<close> (exception
    propagation) and \<open>foreachE\<close> (a \<open>for\<close> loop whose body may raise), with
    their lemmas.
  \<^item> \<open>FileSystem\<close>: the world (\<open>fs\<close>, \<open>stdout\<close>, \<open>clock\<close>) and the library calls
    the builder makes, modelled from their POSIX behaviour since they are not
    code of the repository: \<open>pjoin\<close> (pathlib's \<open>/\<close>), \<open>walk\<close>/\<open>locate\<close> (path
    resolution, \<open>..\<close> included), \<open>mkdir\<close> (\<open>Path.mkdir(exist_ok=True)\<close>),
    \<open>write_file\<close> (\<open>open(p, "w").write\<close>), \<open>copyfile\<close> (\<open>shutil.copyfile\<close>),
    \<open>say\<close> (\<open>print\<close>). A call that raises returns \<open>Inl (error, world)\<close>, the
    world as it was when the exception left. The invariant \<open>wf_fs\<close> (the root is a
    directory, every entry's parent is a directory), the relation \<open>kept\<close> (no
    entry disappears or changes kind) and \<open>sound\<close> steps (keep both, whether
    they return or raise) with their composition rules \<open>sound_intros\<close>.
  \<^item> \<open>Models\<close>: \<open>Event\<close>, \<open>Group\<close>, \<open>Hackathon\<close> and the repository interface
    (\<open>all()\<close>, \<open>filter_around\<close>, \<open>filter_group\<close>, \<open>find_by\<close>), modelled from
    the spec because \<open>techcity.models\<close> and the repositories are not under
    \<open>src/\<close>; the message classes as the datatype \<open>message\<close>.
  \<^item> \<open>Render\<close>: the builder record (\<open>SiteBuilder.__init__\<close>), the context dicts
    as association lists of \<open>cval\<close>, Jinja's \<open>FileSystemLoader\<close> lookup
    (\<open>get_template\<close>) and \<open>render\<close>. The Jinja engine, \<open>tailwindify_html\<close>
    and the float formatting of the elapsed time are parameters (\<open>externals\<close>).
  \<^item> \<open>Examples\<close>: concrete inputs on which the witnesses evaluate the model.
  \<^item> \<open>IndexPass\<close>: \<open>render_index\<close>; the loop over \<open>filter_around(now)\<close> is
    \<open>index_scan\<close>, whose \<open>bucket\<close> argument is the list \<open>events_with_group\<close>
    aliases.
  \<^item> \<open>Passes\<close>: \<open>render_events\<close>, \<open>render_groups\<close> (with \<open>render_group\<close>,
    \<open>render_group_events\<close> and the loop body \<open>render_groups_body\<close>),
    \<open>render_hackathons\<close>, \<open>render_palette\<close>, \<open>copy_static\<close>; \<open>os.walk\<close> is the
    list it yields, constrained by \<open>os_walk_spec\<close> (discharged in \<open>StaticCopy\<close>);
    the context dicts (\<open>event_context\<close> \<open>\<dots>\<close> \<open>palette_context\<close>).
  \<^item> \<open>Trace\<close>: the build as a flat list of primitive operations
    (\<open>fsop\<close>: print, \<open>mkdir\<close>, render, \<open>copyfile\<close>, timing line), one list
    per pass (\<open>index_ops\<close> \<open>\<dots>\<close> \<open>static_ops\<close>, \<open>build_ops\<close>), each shown
    equal to its pass (\<open>run_index\<close> \<open>\<dots>\<close> \<open>run_static\<close>); the reference fold
    \<open>apply_ops\<close> of the operations' effects; the replay of a run on its own
    result (\<open>run_idempotent\<close>).
  \<^item> \<open>Plan\<close>: when a run of operations completes (\<open>run_completes\<close>), and the
    conditions under which the build's operations do (\<open>build_ops_completes\<close>).
  \<^item> \<open>Walk\<close>: the library behind \<open>copy_static\<close>'s loop header:
    \<open>PurePath.relative_to\<close> (\<open>relative_to\<close>, raising \<open>ValueError\<close>) and
    \<open>os.walk\<close> as CPython runs it (\<open>os_walk\<close>: a stack of directories, each
    listed with \<open>os.scandir\<close>, i.e. \<open>listdir\<close>, split by \<open>is_dir()\<close> into
    \<open>subdirs\<close> and \<open>nondirs\<close>), over a finite list \<open>ents\<close> of the file
    system's entries in \<open>scandir\<close> order; and its recursive pre-order
    reference \<open>walk_tree\<close>.
  \<^item> \<open>StaticCopy\<close>: \<open>copy_static\<close> as the code writes it (\<open>copy_static_os\<close>,
    \<open>copy_static_os_dir\<close>: the absolute \<open>dirpath\<close> of each step, \<open>relative_to\<close>,
    \<open>os.path.join\<close>), shown to be the relative-path \<open>copy_static\<close> of
    \<open>Passes\<close> on the walk's listing, which meets \<open>os_walk_spec\<close>.
  \<^item> \<open>Spec2Isabelle\<close> (this theory): \<open>SiteBuilder.build\<close> as \<open>build\<close> (over a
    given listing of the static tree) and as \<open>build_walk\<close> (with the code's
    \<open>copy_static\<close>, which walks the tree itself), the module function as
    \<open>build_main\<close>, and the properties of the whole build.

  \<^bold>\<open>What is proved.\<close>
  \<^item> Index pass (C1--C8): the scan with its irreversible switch is the
    \<open>takeWhile\<close>/\<open>dropWhile\<close> split at the first past event (C1); past events
    are always recent (C2); with latest-first input the buckets are exactly the
    future and the past events (C3), while with input whose first event is past
    (earliest-first input, the order the spec names) every event is recent (C4);
    no event is lost or reordered (C5); groups are resolved as the code does
    (C6); the rendered upcoming list is soonest first (C7); the page is written
    (C8).
  \<^item> The build (C9, C10): a completed build leaves the documented layout of
    pages; completed or aborted, it keeps the file system well-formed and never
    removes an entry.
  \<^item> Errors and pages (C11--C13): a missing template raises
    \<open>TemplateNotFound\<close> before the output is opened; event pages resolve the
    group of joint events too; an event id \<open>..\<close> overwrites the index page.
  \<^item> Static copy (C14): given what \<open>os.walk\<close> lists, every listed file is
    copied with its content, every listed directory exists in the output, and
    nothing outside the output root changes.
  \<^item> Aborted builds (C15): an exception after the index pass leaves the index
    page written; nothing is rolled back.
  \<^item> Event pages (C16): with distinct, plain event ids and the templates
    outside the output tree, each event's page holds the event template
    rendered against that event's context, and nothing outside \<open>events/\<close>
    changes. Its frame reasoning rests on \<open>read_file_agree\<close> (a read depends
    only on the entries along its path) and \<open>get_template_agree\<close>.
  \<^item> The printed log (C17): a completed build prints its progress lines in
    the order the passes run, two per group and one per hackathon.
  \<^item> Group pages (C18): likewise each group's page is rendered from the
    events of \<open>filter_group\<close>'s default window and its events page from the
    last fifty years (\<open>old_delta\<close>). C16 and C18 are instances of
    \<open>foreachE_local\<close>: a loop whose steps write disjoint subtrees keeps what
    each step wrote.
  \<^item> Confinement (C19): completed or aborted, the build changes nothing
    outside the output root but the palette artifact in the template directory,
    the separate output target the spec names; the static tree and the
    templates are never modified. Every primitive raises before it writes
    (\<open>exec_op_Inl\<close>), so an aborted run is framed like a completed one
    (\<open>run_frame_result\<close>).
  \<^item> The build as a whole (C20--C22): rerunning a completed build with the
    same inputs completes and changes no file, which is the spec's idempotence
    property (C20); a static file at the path of a page replaces the page,
    because the static copy runs last (C21); the build completes whenever the
    output directory is fresh, the templates exist and the static tree does not
    collide with the pages (C22).
  \<^item> The code's static copy (C23--C25): \<open>copy_static\<close> as written, with
    absolute \<open>dirpath\<close>s, \<open>relative_to\<close> and \<open>os.path.join\<close>, is
    \<open>copy_static\<close> on the walk's listing, so \<open>relative_to\<close> never raises
    (C23); the code's build equals \<open>build\<close> on the listing of the starting
    file system, since no pass writes below \<open>public\<close> and the walk reads
    nothing else (C24), so every property of \<open>build\<close> holds of it; a missing
    static tree is copied as nothing and raises nothing, which the spec does
    not cover (C25). Behind them are lemmas on the library models:
    \<open>relative_to\<close> and joining are inverse (\<open>relative_to_roundtrip\<close>);
    \<open>os.walk\<close> returns on every input (\<open>os_walk_terminates\<close>), by the
    multiset order on the depths left below its stack (\<open>walk_order\<close>), and
    equals the pre-order \<open>walk_tree\<close> (\<open>os_walk_stack\<close>); its listing meets
    \<open>os_walk_spec\<close>, the contract C14 and C20--C22 assume
    (\<open>os_walk_meets_spec\<close>); it yields at most one triple per entry
    (\<open>os_walk_bound\<close>).
  \<^item> Hackathon pages (C26): each hackathon's page holds the hackathon
    template rendered against its own context, by the lemma that also gives
    C16 (\<open>pass_pages\<close>: a pass that makes a directory and renders one page per
    item into its own subdirectory).
  \<^item> A static file where the passes make a directory (C27): every such build
    raises once the pages are written, as \<open>shutil.copyfile\<close> cannot open a
    directory for writing; another case the spec does not cover.
  \<^item> The code's build with its own walk (C28): it returns, raising nothing,
    under the conditions of C22, with \<open>os_walk_spec\<close> no longer an
    assumption but the theorem \<open>walk_tree_meets_spec\<close>; the listing it copies
    is the one of the starting file system (\<open>walk_after_pages\<close>).
  \<^item> Duplicate event ids (C29): the event pages are written in the order of
    \<open>all()\<close>, so where two events share an id the page holds the last one's
    context; C16 is its instance for distinct ids (\<open>page_loop_last\<close>,
    \<open>pass_pages_last\<close>).

  \<^bold>\<open>Choices.\<close> Loops are \<open>foreachE\<close> over the finite lists the repositories
  return, so these definitions are structurally recursive and need no fuel; the
  one loop that is not, \<open>os.walk\<close>'s \<open>while stack\<close>, is a
  \<open>partial_function (option)\<close> whose return is a lemma (\<open>os_walk_terminates\<close>). The file
  system is a map, so the names \<open>scandir\<close> can list come from a finite list
  \<open>ents\<close> of entries; \<open>os_walk_meets_spec\<close> assumes it lists every entry. Time
  is an unbounded \<open>int\<close>, as Python's \<open>datetime\<close> arithmetic never wraps.
  Witnesses evaluate the model with \<open>simp\<close> on the inputs of \<open>Examples\<close>.
  The build-level properties C19--C22 are proved once on the flat operation
  list, where the nesting of passes and loops has been flattened by the
  refinement lemmas of \<open>Trace\<close>, and transferred to \<open>build\<close> by
  the equation \<open>build_run_ops\<close>.

  \<^bold>\<open>Not modelled.\<close> Every function of \<open>build.py\<close> and every class of
  \<open>events/__init__.py\<close> is a definition above; what is left is code outside
  \<open>src/\<close> or behaviour the spec excludes. The Jinja engine and \<open>tailwindify_html\<close> (parameters),
  the repositories' windows (parameters), symbolic links, permissions, and
  concurrent builds (the spec excludes them), Jinja's template cache (it returns
  what a fresh lookup would on an unchanged template directory), and the
  interleaving of \<open>os.walk\<close>'s generator with the copy: \<open>build_walk\<close> lists
  the static tree when \<open>copy_static\<close> starts, not directory by directory while
  it copies (the copy writes below the output root, apart from \<open>public\<close>
  under \<open>layout_ok\<close>). Nor is the passage of time during a build: no step
  advances the world's clock, so the elapsed time the last line prints is the
  difference of the two readings the world supplies, formatted by the
  parameter \<open>show_seconds\<close>.
\<close>

section \<open>The build\<close>

text \<open>\<open>SiteBuilder.build\<close>: create the output root, run the five passes in
  their fixed order, copy the static tree, report the elapsed time. \<open>walked\<close>
  is what \<open>os.walk(public)\<close> yields when \<open>copy_static\<close> runs.\<close>

definition build ::
  "externals \<Rightarrow> site_builder \<Rightarrow> repositories \<Rightarrow> (path \<times> string list) list \<Rightarrow> world \<Rightarrow> outcome" where
  "build x b r walked w =
     bindE (mkdir (out b) (say ''Generating content to `out` directory'' w)) (\<lambda>w.
     bindE (render_index x b r w) (\<lambda>w.
     bindE (render_events x b r w) (\<lambda>w.
     bindE (render_groups x b r w) (\<lambda>w.
     bindE (render_hackathons x b r w) (\<lambda>w.
     bindE (render_palette x b r w) (\<lambda>w.
     bindE (copy_static b walked w) (\<lambda>w.
     Inr (say (''Done in '' @ show_seconds x (clock w - now b) @ '' seconds'') w))))))))"

text \<open>The module-level \<open>build()\<close>: \<open>now\<close> is read from the clock once, and the
  builder is constructed on the configured output directory.\<close>

definition build_main ::
  "externals \<Rightarrow> path \<Rightarrow> path \<Rightarrow> repositories \<Rightarrow> (path \<times> string list) list \<Rightarrow> world \<Rightarrow> outcome" where
  "build_main x out_dir service_path r walked w =
     build x (init_site_builder (clock w) out_dir service_path) r walked w"

text \<open>\<open>SiteBuilder.build\<close> with \<open>copy_static\<close> as the code writes it
  (\<open>copy_static_os\<close>): \<open>os.walk\<close> lists the static tree when \<open>copy_static\<close>
  starts, on the file system the passes have left. \<open>None\<close> would be a walk
  that does not return.\<close>

definition build_walk ::
  "externals \<Rightarrow> site_builder \<Rightarrow> repositories \<Rightarrow> path list \<Rightarrow> world \<Rightarrow> outcome option" where
  "build_walk x b r ents w =
     (case bindE (mkdir (out b) (say ''Generating content to `out` directory'' w)) (\<lambda>w.
           bindE (render_index x b r w) (\<lambda>w.
           bindE (render_events x b r w) (\<lambda>w.
           bindE (render_groups x b r w) (\<lambda>w.
           bindE (render_hackathons x b r w) (\<lambda>w.
           render_palette x b r w))))) of
        Inl ew \<Rightarrow> Some (Inl ew)
      | Inr w \<Rightarrow>
          map_option (\<lambda>res. bindE res (\<lambda>w.
              Inr (say (''Done in '' @ show_seconds x (clock w - now b) @ '' seconds'') w)))
            (copy_static_os b ents w))"

text \<open>The lines a completed build prints before its timing line.\<close>

definition build_log :: "repositories \<Rightarrow> string list" where
  "build_log r =
     [''Generating content to `out` directory'', ''Rendering index'', ''Rendering events''] @
     concat (map group_log (all_groups r)) @
     map (\<lambda>h. ''Rendering hackathon: '' @ hackathon_name h) (all_hackathons r) @
     [''Copying static files from `public` to `out`'']"

section \<open>Properties of the whole build\<close>

lemma sound_build: "sound (build x b r walked)"
  unfolding build_def [abs_def] by (intro sound_intros)

text \<open>C10. Whether the build completes or aborts with an exception, it leaves a
  well-formed file system in which every entry that existed before is still
  there with its kind: output of earlier builds is never cleared, and the
  output written before an exception is never cleaned up.\<close>

theorem build_keeps_entries:
  assumes "wf_fs (fs w)"
  shows "wf_fs (fs (result_world (build x b r walked w))) \<and>
         kept (fs w) (fs (result_world (build x b r walked w)))"
  using soundD [OF sound_build assms] .


lemma build_Inr:
  assumes ok: "build x b r walked w = Inr w'"
  shows "\<exists>w0 w1 w2 w3 w4 w5 w6.
    mkdir (out b) (say ''Generating content to `out` directory'' w) = Inr w0 \<and>
    render_index x b r w0 = Inr w1 \<and> render_events x b r w1 = Inr w2 \<and>
    render_groups x b r w2 = Inr w3 \<and> render_hackathons x b r w3 = Inr w4 \<and>
    render_palette x b r w4 = Inr w5 \<and> copy_static b walked w5 = Inr w6 \<and>
    w' = say (''Done in '' @ show_seconds x (clock w6 - now b) @ '' seconds'') w6"
  using ok unfolding build_def bindE_eq_Inr_iff by blast

lemma passes_run:
  "bindE (mkdir (out b) (say ''Generating content to `out` directory'' w)) (\<lambda>w.
     bindE (render_index x b r w) (\<lambda>w. bindE (render_events x b r w) (\<lambda>w.
     bindE (render_groups x b r w) (\<lambda>w. bindE (render_hackathons x b r w) (\<lambda>w.
     render_palette x b r w))))) = run x b (page_ops x b r) w"
  by (simp add: page_ops_def run_passes)

lemma build_split:
  "build x b r walked w = bindE (run x b (page_ops x b r) w) (\<lambda>w.
     bindE (copy_static b walked w) (\<lambda>w. Inr (say (''Done in '' @ show_seconds x (clock w - now b) @ '' seconds'') w)))"
  by (simp add: build_def page_ops_def run_passes)

text \<open>What a completed build leaves from its static copy: the pages' run
  completes first, the copy keeps every entry it leaves, and every listed static
  file is in the output with the content it has in the static tree.\<close>

lemma build_static_phase:
  assumes ok: "build x b r walked w = Inr w'" and wf: "wf_fs (fs w)" and lay: "layout_ok b r walked"
    and ow: "os_walk_spec (fs w) (public b) walked"
  shows "\<exists>w5. run x b (page_ops x b r) w = Inr w5 \<and> wf_fs (fs w5) \<and> kept (fs w5) (fs w') \<and>
    (\<forall>(rel, fns) \<in> set walked. \<forall>fn \<in> set fns. fs w' (out b @ rel @ [fn]) = fs w (public b @ rel @ [fn]))"
proof -
  from ok obtain w5 w6 where pre: "run x b (page_ops x b r) w = Inr w5"
    and st: "copy_static b walked w5 = Inr w6"
    and w': "w' = say (''Done in '' @ show_seconds x (clock w6 - now b) @ '' seconds'') w6"
    by (auto simp: build_split bindE_eq_Inr_iff)
  have okp: "\<forall>op \<in> set (page_ops x b r). op_ok op" using build_ops_ok [OF lay, of x] by (simp add: build_ops_split)
  have pub: "\<forall>p. prefix (public b) p \<longrightarrow> fs w5 p = fs w p"
  proof (intro allI impI)
    fix p assume "prefix (public b) p"
    from build_ops_public [OF lay this, of x]
    have "p \<notin> (\<Union>op \<in> set (page_ops x b r). set (writes op))" by (simp add: build_ops_split)
    from run_frame [OF pre okp this] show "fs w5 p = fs w p" .
  qed
  have wf5: "wf_fs (fs w5)" using sound_Inr [OF sound_run wf pre] by blast
  have kp: "kept (fs w5) (fs w')" using sound_Inr [OF sound_copy_static wf5 st] w' by simp
  have src: "static_source_ok b (fs (say ''Copying static files from `public` to `out`'' w5)) walked"
    using os_walk_source_ok [OF ow] static_source_ok_agree [OF pub] by simp
  have loop: "foreachE (copy_static_dir b) walked (say ''Copying static files from `public` to `out`'' w5) = Inr w6"
    using st by (simp add: copy_static_def)
  have cl: "clean_path (out b)" "clean_path (public b)" "out b \<parallel> public b" using lay by (simp_all add: layout_ok_def)
  from copy_static_loop [OF loop cl src]
  have "\<forall>(rel, fns) \<in> set walked. \<forall>fn \<in> set fns. fs w6 (out b @ rel @ [fn]) = fs w5 (public b @ rel @ [fn])"
    by simp
  with pub w' have "\<forall>(rel, fns) \<in> set walked. \<forall>fn \<in> set fns. fs w' (out b @ rel @ [fn]) = fs w (public b @ rel @ [fn])"
    by fastforce
  with pre wf5 kp show ?thesis by blast
qed

lemma build_run_ops: "build x b r walked w = run x b (build_ops x b r walked) w"
  by (simp add: build_def build_ops_def run_passes)

text \<open>C9. A build that completes leaves the output layout: \<open>index.html\<close>
  under the output root, \<open>events/<id>/index.html\<close> for every event,
  \<open>groups/<slug>/index.html\<close> and \<open>groups/<slug>/events/index.html\<close> for
  every group, \<open>hackathons/<slug>/index.html\<close> for every hackathon (each whose
  identity is a plain path component), and \<open>palette-rendered.html\<close> in the
  template directory.\<close>

theorem build_layout:
  assumes ok: "build x b r walked w = Inr w'"
    and wf: "wf_fs (fs w)" and co: "clean_path (out b)" and ne: "out b \<noteq> []"
    and par: "fs w (butlast (out b)) = Some Dir"
    and tp: "dir_at w (templates b)"
  shows "is_file (fs w' (out b @ [''index.html''])) \<and>
    (\<forall>e \<in> set (all_events r). simple_name (event_id e) \<longrightarrow>
        is_file (fs w' (out b @ [''events'', event_id e, ''index.html'']))) \<and>
    (\<forall>g \<in> set (all_groups r). simple_name (slug g) \<longrightarrow>
        is_file (fs w' (out b @ [''groups'', slug g, ''index.html''])) \<and>
        is_file (fs w' (out b @ [''groups'', slug g, ''events'', ''index.html'']))) \<and>
    (\<forall>h \<in> set (all_hackathons r). simple_name (hackathon_slug h) \<longrightarrow>
        is_file (fs w' (out b @ [''hackathons'', hackathon_slug h, ''index.html'']))) \<and>
    is_file (fs w' (templates b @ [''palette-rendered.html'']))"
proof -
  from build_Inr [OF ok] obtain w0 w1 w2 w3 w4 w5 w6 where
    s0: "mkdir (out b) (say ''Generating content to `out` directory'' w) = Inr w0" and
    s1: "render_index x b r w0 = Inr w1" and s2: "render_events x b r w1 = Inr w2" and
    s3: "render_groups x b r w2 = Inr w3" and s4: "render_hackathons x b r w3 = Inr w4" and
    s5: "render_palette x b r w4 = Inr w5" and s6: "copy_static b walked w5 = Inr w6" and
    s7: "w' = say (''Done in '' @ show_seconds x (clock w6 - now b) @ '' seconds'') w6"
    by blast
  have ob: "butlast (out b) @ [last (out b)] = out b" using ne by simp
  have "clean_path (butlast (out b))" using co by (auto simp: clean_path_def dest: in_set_butlastD)
  with wf par have "dir_at (say ''Generating content to `out` directory'' w) (butlast (out b))"
    by (simp add: dir_at_def)
  moreover have "simple_name (last (out b))" using co ne by (simp add: clean_path_def)
  ultimately have d0: "dir_at w0 (out b)"
    using dir_at_mkdir [of "say ''Generating content to `out` directory'' w" "butlast (out b)" "last (out b)" w0]
      s0 ob by simp
  have d1: "dir_at w1 (out b)" using dir_at_sound [OF d0 sound_render_index s1] .
  have d2: "dir_at w2 (out b)" using dir_at_sound [OF d1 sound_render_events s2] .
  have d3: "dir_at w3 (out b)" using dir_at_sound [OF d2 sound_render_groups s3] .
  have d4: "dir_at w4 (out b)" using dir_at_sound [OF d3 sound_render_hackathons s4] .
  have wf0: "wf_fs (fs w0)" using d0 by (simp add: dir_at_def)
  have wf4: "wf_fs (fs w4)" using d4 by (simp add: dir_at_def)
  have wf5: "wf_fs (fs w5)" using sound_Inr [OF sound_render_palette wf4 s5] by simp
  have k6: "kept (fs w5) (fs w')" using sound_Inr [OF sound_copy_static wf5 s6] s7 by simp
  have k5: "kept (fs w4) (fs w')" using sound_Inr [OF sound_render_palette wf4 s5] k6 kept_trans by blast
  have k4: "kept (fs w3) (fs w')"
    using sound_Inr [OF sound_render_hackathons _ s4] d3 k5 kept_trans by (blast intro: dir_at_def [THEN iffD1, THEN conjunct1])
  have k3: "kept (fs w2) (fs w')"
    using sound_Inr [OF sound_render_groups _ s3] d2 k4 kept_trans by (blast intro: dir_at_def [THEN iffD1, THEN conjunct1])
  have k2: "kept (fs w1) (fs w')"
    using sound_Inr [OF sound_render_events _ s2] d1 k3 kept_trans by (blast intro: dir_at_def [THEN iffD1, THEN conjunct1])
  have kw4: "kept (fs w) (fs w4)"
  proof -
    have "kept (fs w) (fs w0)" using sound_Inr [OF sound_mkdir _ s0] wf by simp
    moreover have "kept (fs w0) (fs w1)" using sound_Inr [OF sound_render_index wf0 s1] by simp
    moreover have "kept (fs w1) (fs w4)"
      using k2 k3 k4 sound_Inr [OF sound_render_events _ s2] sound_Inr [OF sound_render_groups _ s3]
        sound_Inr [OF sound_render_hackathons _ s4] d1 d2 d3 kept_trans
      by (meson dir_at_def)
    ultimately show ?thesis using kept_trans by blast
  qed
  have tp4: "dir_at w4 (templates b)" using dir_at_kept [OF tp wf4 kw4] .
  have f1: "is_file (fs w' (out b @ [''index.html'']))"
    using kept_file [OF k2 render_index_file [OF d0 s1]] .
  have f2: "\<forall>e \<in> set (all_events r). simple_name (event_id e) \<longrightarrow>
        is_file (fs w' (out b @ [''events'', event_id e, ''index.html'']))"
    using kept_file [OF k3 render_events_file [OF d1 s2]] by blast
  have f3: "\<forall>g \<in> set (all_groups r). simple_name (slug g) \<longrightarrow>
        is_file (fs w' (out b @ [''groups'', slug g, ''index.html''])) \<and>
        is_file (fs w' (out b @ [''groups'', slug g, ''events'', ''index.html'']))"
    using render_groups_files [OF d2 s3] kept_file [OF k4] by blast
  have f4: "\<forall>h \<in> set (all_hackathons r). simple_name (hackathon_slug h) \<longrightarrow>
        is_file (fs w' (out b @ [''hackathons'', hackathon_slug h, ''index.html'']))"
    using kept_file [OF k5 render_hackathons_file [OF d3 s4]] by blast
  have f5: "is_file (fs w' (templates b @ [''palette-rendered.html'']))"
    using kept_file [OF k6 render_palette_file [OF tp4 s5]] .
  from f1 f2 f3 f4 f5 show ?thesis by blast
qed

lemmas pass_defs = build_def render_index_def render_events_def render_event_def render_groups_def
  render_groups_body_def render_group_def render_group_events_def render_hackathons_def
  render_hackathon_def render_palette_def copy_static_def copy_static_dir_def render_def
  get_template_def

theorem build_keeps_entries_witness:
  "wf_fs (fs ex_world) \<and>
   wf_fs (fs (result_world (build ex_externals ex_builder ex_repos [([], [''site.css''])] ex_world))) \<and>
   kept (fs ex_world) (fs (result_world (build ex_externals ex_builder ex_repos [([], [''site.css''])] ex_world)))"
proof -
  have wf: "wf_fs (fs ex_world)" by (simp add: wf_fs_def ex_defs)
  from build_keeps_entries [OF wf] wf show ?thesis by simp
qed

theorem build_layout_witness:
  "\<exists>w'. build ex_externals ex_builder ex_repos [([], [''site.css''])] ex_world = Inr w' \<and>
        wf_fs (fs ex_world) \<and> clean_path (out ex_builder) \<and> out ex_builder \<noteq> [] \<and>
        fs ex_world (butlast (out ex_builder)) = Some Dir \<and> dir_at ex_world (templates ex_builder) \<and>
        is_file (fs w' [''out'', ''index.html'']) \<and>
        is_file (fs w' [''out'', ''events'', ''e1'', ''index.html'']) \<and>
        is_file (fs w' [''out'', ''groups'', ''g1'', ''events'', ''index.html'']) \<and>
        is_file (fs w' [''out'', ''hackathons'', ''h1'', ''index.html'']) \<and>
        is_file (fs w' [''svc'', ''templates'', ''palette-rendered.html''])"
proof -
  have "\<exists>w'. build ex_externals ex_builder ex_repos [([], [''site.css''])] ex_world = Inr w'"
    by (simp add: pass_defs ex_defs step_simps)
  then obtain w' where ok: "build ex_externals ex_builder ex_repos [([], [''site.css''])] ex_world = Inr w'" ..
  have h: "wf_fs (fs ex_world)" "clean_path (out ex_builder)" "out ex_builder \<noteq> []"
    "fs ex_world (butlast (out ex_builder)) = Some Dir" "dir_at ex_world (templates ex_builder)"
    by (simp_all add: wf_fs_def dir_at_def clean_path_def simple_name_def ex_defs step_simps)
  have ids: "out ex_builder = [''out'']" "templates ex_builder = [''svc'', ''templates'']"
    by (simp_all add: ex_defs step_simps)
  have mem: "ex_past \<in> set (all_events ex_repos)" "ex_g1 \<in> set (all_groups ex_repos)"
    "ex_hack \<in> set (all_hackathons ex_repos)" by (simp_all add: ex_repos_def)
  have names: "event_id ex_past = ''e1''" "slug ex_g1 = ''g1''" "hackathon_slug ex_hack = ''h1''"
    "simple_name ''e1''" "simple_name ''g1''" "simple_name ''h1''"
    by (simp_all add: ex_defs simple_name_def)
  from build_layout [OF ok h] ids mem names ok h show ?thesis by force
qed

text \<open>C15. An exception raised after the index pass has completed leaves
  \<open>index.html\<close> in the world it aborts with: the build has no rollback, and an
  aborted build leaves a mix of new and old output.\<close>

theorem build_abort_keeps_index:
  assumes "build x b r walked w = Inl (e, we)"
    and "mkdir (out b) (say ''Generating content to `out` directory'' w) = Inr w0"
    and "dir_at w0 (out b)" and "render_index x b r w0 = Inr w1"
  shows "is_file (fs we (out b @ [''index.html'']))"
proof -
  let ?rest = "\<lambda>w. bindE (render_events x b r w) (\<lambda>w.
     bindE (render_groups x b r w) (\<lambda>w.
     bindE (render_hackathons x b r w) (\<lambda>w.
     bindE (render_palette x b r w) (\<lambda>w.
     bindE (copy_static b walked w) (\<lambda>w.
     Inr (say (''Done in '' @ show_seconds x (clock w - now b) @ '' seconds'') w))))))"
  have "sound ?rest" by (intro sound_intros)
  moreover have "?rest w1 = Inl (e, we)" using assms(1,2,4) by (simp add: build_def)
  moreover have "wf_fs (fs w1)" and "is_file (fs w1 (out b @ [''index.html'']))"
    using dir_at_sound [OF assms(3) sound_render_index assms(4)] render_index_file [OF assms(3,4)]
    by (simp_all add: dir_at_def)
  ultimately show ?thesis using soundD [of ?rest w1] kept_file by fastforce
qed

theorem build_abort_keeps_index_witness:
  "\<exists>e we w0 w1. build ex_externals ex_builder ex_repos [([], [''site.css''])] ex_world_no_event = Inl (e, we) \<and>
     mkdir (out ex_builder) (say ''Generating content to `out` directory'' ex_world_no_event) = Inr w0 \<and>
     dir_at w0 (out ex_builder) \<and> render_index ex_externals ex_builder ex_repos w0 = Inr w1 \<and>
     e = TemplateNotFound ''event.html'' \<and> is_file (fs we [''out'', ''index.html''])"
proof -
  define w0 where "w0 = say ''Generating content to `out` directory''
                          (ex_world_no_event\<lparr>fs := (fs ex_world_no_event)([''out''] \<mapsto> Dir)\<rparr>)"
  have m: "mkdir (out ex_builder) (say ''Generating content to `out` directory'' ex_world_no_event) = Inr w0"
    by (simp add: w0_def ex_defs step_simps)
  have d: "dir_at w0 (out ex_builder)"
    by (simp add: w0_def dir_at_def wf_fs_def clean_path_def simple_name_def ex_defs step_simps)
  have "\<exists>w1. render_index ex_externals ex_builder ex_repos w0 = Inr w1"
    by (simp add: w0_def render_index_def render_def get_template_def ex_defs step_simps)
  then obtain w1 where ri: "render_index ex_externals ex_builder ex_repos w0 = Inr w1" ..
  have "\<exists>we. build ex_externals ex_builder ex_repos [([], [''site.css''])] ex_world_no_event =
               Inl (TemplateNotFound ''event.html'', we)"
    by (simp add: pass_defs ex_defs step_simps)
  then obtain we where b: "build ex_externals ex_builder ex_repos [([], [''site.css''])] ex_world_no_event =
               Inl (TemplateNotFound ''event.html'', we)" ..
  from build_abort_keeps_index [OF b m d ri] have "is_file (fs we [''out'', ''index.html''])"
    by (simp add: ex_defs)
  with b m d ri show ?thesis by blast
qed

text \<open>C17. A completed build prints, in this order: the start line, one line
  for the index and one for the events, two lines per group, one line per
  hackathon, the static-copy line, and the elapsed time.\<close>

theorem build_stdout:
  assumes "build x b r walked w = Inr w'"
  shows "stdout w' = stdout w @ build_log r @
           [''Done in '' @ show_seconds x (clock w' - now b) @ '' seconds'']"
proof -
  from build_Inr [OF assms] obtain w0 w1 w2 w3 w4 w5 w6 where
    s0: "mkdir (out b) (say ''Generating content to `out` directory'' w) = Inr w0" and
    s1: "render_index x b r w0 = Inr w1" and s2: "render_events x b r w1 = Inr w2" and
    s3: "render_groups x b r w2 = Inr w3" and s4: "render_hackathons x b r w3 = Inr w4" and
    s5: "render_palette x b r w4 = Inr w5" and s6: "copy_static b walked w5 = Inr w6" and
    s7: "w' = say (''Done in '' @ show_seconds x (clock w6 - now b) @ '' seconds'') w6"
    by blast
  from mkdir_stdout [OF s0] render_index_log [OF s1] render_events_log [OF s2]
    render_groups_log [OF s3] render_hackathons_log [OF s4] render_palette_log [OF s5]
    copy_static_log [OF s6] s7
  show ?thesis by (simp add: build_log_def)
qed

theorem build_stdout_witness:
  "\<exists>w'. build ex_externals ex_builder ex_repos [([], [''site.css''])] ex_world = Inr w' \<and>
        stdout w' = [''Generating content to `out` directory'', ''Rendering index'', ''Rendering events'',
          ''Rendering group: Group One'', ''Rendering group events: Group One'',
          ''Rendering hackathon: Hack One'', ''Copying static files from `public` to `out`'',
          ''Done in 0.5 seconds'']"
proof -
  have "\<exists>w'. build ex_externals ex_builder ex_repos [([], [''site.css''])] ex_world = Inr w'"
    by (simp add: pass_defs ex_defs step_simps)
  then obtain w' where ok: "build ex_externals ex_builder ex_repos [([], [''site.css''])] ex_world = Inr w'" ..
  from build_stdout [OF ok] have "stdout w' = stdout ex_world @ build_log ex_repos @
      [''Done in '' @ show_seconds ex_externals (clock w' - now ex_builder) @ '' seconds'']" .
  then have "stdout w' = [''Generating content to `out` directory'', ''Rendering index'', ''Rendering events'',
          ''Rendering group: Group One'', ''Rendering group events: Group One'',
          ''Rendering hackathon: Hack One'', ''Copying static files from `public` to `out`'',
          ''Done in 0.5 seconds'']"
    by (simp add: build_log_def group_log_def ex_defs)
  with ok show ?thesis by blast
qed

text \<open>C19. Confinement: whether it completes or raises, the build changes no
  entry of the file system outside the output root except the palette artifact
  \<open>palette-rendered.html\<close> in the template directory, provided the output,
  template and static directories are disjoint and the identities it joins onto
  paths are plain names. In particular the static tree and the templates the
  build reads are never modified.\<close>

theorem build_confined:
  assumes lay: "layout_ok b r walked" and np: "\<not> prefix (out b) p"
    and npal: "p \<noteq> templates b @ [''palette-rendered.html'']"
  shows "fs (result_world (build x b r walked w)) p = fs w p"
proof -
  have "p \<notin> (\<Union>op \<in> set (build_ops x b r walked). set (writes op))"
    using build_ops_writes [OF lay] np npal by blast
  from run_frame_result [OF build_ops_ok [OF lay] this] show ?thesis by (simp add: build_run_ops)
qed

theorem build_confined_witness:
  "layout_ok ex_builder ex_repos [([], [''site.css''])] \<and>
   \<not> prefix (out ex_builder) [''svc'', ''public'', ''site.css''] \<and>
   [''svc'', ''public'', ''site.css''] \<noteq> templates ex_builder @ [''palette-rendered.html''] \<and>
   fs (result_world (build ex_externals ex_builder ex_repos [([], [''site.css''])] ex_world_no_event))
     [''svc'', ''public'', ''site.css''] = fs ex_world_no_event [''svc'', ''public'', ''site.css'']"
proof -
  have lay: "layout_ok ex_builder ex_repos [([], [''site.css''])]"
    by (simp add: layout_ok_def clean_path_def simple_name_def parallel_def ex_defs step_simps)
  have np: "\<not> prefix (out ex_builder) [''svc'', ''public'', ''site.css'']" by (simp add: ex_defs step_simps)
  have npal: "[''svc'', ''public'', ''site.css''] \<noteq> templates ex_builder @ [''palette-rendered.html'']"
    by (simp add: ex_defs step_simps)
  from build_confined [OF lay np npal, of ex_externals ex_world_no_event] lay np npal show ?thesis by simp
qed

text \<open>C20. Idempotence: running a completed build a second time, with the
  same \<open>now\<close>, repositories and static listing, completes too and leaves the
  file system exactly as the first run left it, every page and copied asset
  byte-identical (only the printed log grows). The static tree is untouched by
  the build, so \<open>os.walk\<close> lists the same tree the second time.\<close>

theorem build_idempotent:
  assumes ok: "build x b r walked w = Inr w1" and wf: "wf_fs (fs w)" and lay: "layout_ok b r walked"
  shows "(\<exists>w2. build x b r walked w1 = Inr w2 \<and> fs w2 = fs w1) \<and>
         (\<forall>p. prefix (public b) p \<longrightarrow> fs w1 p = fs w p)"
proof -
  have eq: "build x b r walked = run x b (build_ops x b r walked)"
    by (rule ext) (simp add: build_def build_ops_def run_passes)
  have cl: "clean_path (loader (env b))" using lay by (simp add: layout_ok_def)
  from ok eq have r1: "run x b (build_ops x b r walked) w = Inr w1" by simp
  from run_idempotent [OF r1 wf build_ops_ok [OF lay] cl build_ops_reads_unwritten [OF lay]] eq
  have "\<exists>w2. build x b r walked w1 = Inr w2 \<and> fs w2 = fs w1" by simp
  moreover have "\<forall>p. prefix (public b) p \<longrightarrow> fs w1 p = fs w p"
    using run_frame [OF r1 build_ops_ok [OF lay]] build_ops_public [OF lay] by blast
  ultimately show ?thesis by blast
qed

theorem build_idempotent_witness:
  "\<exists>w1 w2. build ex_externals ex_builder ex_repos [([], [''site.css''])] ex_world = Inr w1 \<and>
     wf_fs (fs ex_world) \<and> layout_ok ex_builder ex_repos [([], [''site.css''])] \<and>
     build ex_externals ex_builder ex_repos [([], [''site.css''])] w1 = Inr w2 \<and> fs w2 = fs w1 \<and>
     fs w2 [''out'', ''site.css''] = Some (File ''CSS'')"
proof -
  have "\<exists>w1. build ex_externals ex_builder ex_repos [([], [''site.css''])] ex_world = Inr w1 \<and>
      fs w1 [''out'', ''site.css''] = Some (File ''CSS'')"
    by (simp add: pass_defs ex_defs step_simps)
  then obtain w1 where ok: "build ex_externals ex_builder ex_repos [([], [''site.css''])] ex_world = Inr w1"
    and css: "fs w1 [''out'', ''site.css''] = Some (File ''CSS'')" by blast
  have wf: "wf_fs (fs ex_world)" by (simp add: wf_fs_def ex_defs)
  have lay: "layout_ok ex_builder ex_repos [([], [''site.css''])]"
    by (simp add: layout_ok_def clean_path_def simple_name_def parallel_def ex_defs step_simps)
  from build_idempotent [OF ok wf lay] obtain w2 where
    b2: "build ex_externals ex_builder ex_repos [([], [''site.css''])] w1 = Inr w2" and f2: "fs w2 = fs w1" by blast
  with ok wf lay b2 f2 css show ?thesis by auto
qed

text \<open>C21. A static asset is copied after every page is rendered, so where
  the static tree holds a file at the path of a page (\<open>public/index.html\<close>,
  say), the completed build's output holds the static file, not the page.\<close>

theorem build_static_overrides_pages:
  assumes ok: "build x b r walked w = Inr w'" and wf: "wf_fs (fs w)" and lay: "layout_ok b r walked"
    and ow: "os_walk_spec (fs w) (public b) walked"
    and f: "fs w (public b @ rel @ [fn]) = Some (File c)"
  shows "fs w' (out b @ rel @ [fn]) = Some (File c)"
proof -
  from build_static_phase [OF ok wf lay ow]
  have fl: "\<forall>(rel, fns) \<in> set walked. \<forall>fn \<in> set fns. fs w' (out b @ rel @ [fn]) = fs w (public b @ rel @ [fn])"
    by blast
  have "\<exists>fns. (rel, fns) \<in> set walked \<and> fn \<in> set fns" using ow f unfolding os_walk_spec_def by blast
  with fl f show ?thesis by fastforce
qed

theorem build_static_overrides_pages_witness:
  "\<exists>w'. build ex_externals ex_builder ex_repos [([], [''site.css'', ''index.html''])] ex_world_static = Inr w' \<and>
     wf_fs (fs ex_world_static) \<and> layout_ok ex_builder ex_repos [([], [''site.css'', ''index.html''])] \<and>
     os_walk_spec (fs ex_world_static) (public ex_builder) [([], [''site.css'', ''index.html''])] \<and>
     fs ex_world_static (public ex_builder @ [] @ [''index.html'']) = Some (File ''STATIC'') \<and>
     fs w' [''out'', ''index.html''] = Some (File ''STATIC'')"
proof -
  have "\<exists>w'. build ex_externals ex_builder ex_repos [([], [''site.css'', ''index.html''])] ex_world_static = Inr w'"
    by (simp add: pass_defs ex_defs step_simps)
  then obtain w' where ok: "build ex_externals ex_builder ex_repos [([], [''site.css'', ''index.html''])] ex_world_static = Inr w'" ..
  have h: "wf_fs (fs ex_world_static)" "layout_ok ex_builder ex_repos [([], [''site.css'', ''index.html''])]"
    "fs ex_world_static (public ex_builder @ [] @ [''index.html'']) = Some (File ''STATIC'')"
    by (simp_all add: wf_fs_def layout_ok_def clean_path_def simple_name_def parallel_def ex_defs step_simps)
  have ow: "os_walk_spec (fs ex_world_static) (public ex_builder) [([], [''site.css'', ''index.html''])]"
    by (auto simp: os_walk_spec_def clean_path_def simple_name_def ex_defs step_simps)
  from build_static_overrides_pages [OF ok h(1,2) ow h(3)] have
    "fs w' [''out'', ''index.html''] = Some (File ''STATIC'')" by (simp add: ex_defs)
  with ok h ow show ?thesis by blast
qed


text \<open>C27. A static file where the passes make a directory (\<open>public/events\<close>,
  say) makes every build raise: that directory exists before the static copy
  runs, a directory is kept a directory, and \<open>shutil.copyfile\<close> cannot open it
  for writing; the pages already written stay (C15).\<close>

theorem build_static_file_on_page_dir:
  assumes wf: "wf_fs (fs w)" and lay: "layout_ok b r walked"
    and ow: "os_walk_spec (fs w) (public b) walked"
    and f: "fs w (public b @ rel @ [fn]) = Some (File c)"
    and pd: "out b @ rel @ [fn] \<in> set (page_dirs b r)"
  shows "\<exists>e w''. build x b r walked w = Inl (e, w'')"
proof (cases "build x b r walked w")
  case (Inr w')
  from build_static_phase [OF Inr wf lay ow] obtain w5 where pre: "run x b (page_ops x b r) w = Inr w5"
    and wf5: "wf_fs (fs w5)" and kp: "kept (fs w5) (fs w')"
    and fl: "\<forall>(rel, fns) \<in> set walked. \<forall>fn \<in> set fns. fs w' (out b @ rel @ [fn]) = fs w (public b @ rel @ [fn])"
    by blast
  have "\<exists>fns. (rel, fns) \<in> set walked \<and> fn \<in> set fns" using ow f unfolding os_walk_spec_def by blast
  with fl f have isf: "fs w' (out b @ rel @ [fn]) = Some (File c)" by fastforce
  have okp: "\<forall>op \<in> set (page_ops x b r). op_ok op" using build_ops_ok [OF lay, of x] by (simp add: build_ops_split)
  from run_made_dir [OF pre wf okp page_dirs_made [OF lay pd]] have "fs w5 (out b @ rel @ [fn]) = Some Dir" by simp
  with kp have "fs w' (out b @ rel @ [fn]) = Some Dir" by (rule kept_dir)
  with isf show ?thesis by simp
qed auto

theorem build_static_file_on_page_dir_witness:
  "wf_fs (fs ex_world_clash) \<and> layout_ok ex_builder ex_repos [([], [''site.css'', ''events''])] \<and>
   os_walk_spec (fs ex_world_clash) (public ex_builder) [([], [''site.css'', ''events''])] \<and>
   fs ex_world_clash (public ex_builder @ [] @ [''events'']) = Some (File ''CLASH'') \<and>
   out ex_builder @ [] @ [''events''] \<in> set (page_dirs ex_builder ex_repos) \<and>
   (\<exists>e w''. build ex_externals ex_builder ex_repos [([], [''site.css'', ''events''])] ex_world_clash = Inl (e, w''))"
proof -
  have h: "wf_fs (fs ex_world_clash)" "layout_ok ex_builder ex_repos [([], [''site.css'', ''events''])]"
    "fs ex_world_clash (public ex_builder @ [] @ [''events'']) = Some (File ''CLASH'')"
    "out ex_builder @ [] @ [''events''] \<in> set (page_dirs ex_builder ex_repos)"
    by (simp_all add: wf_fs_def layout_ok_def clean_path_def simple_name_def parallel_def page_dirs_def
        ex_defs step_simps)
  have ow: "os_walk_spec (fs ex_world_clash) (public ex_builder) [([], [''site.css'', ''events''])]"
    by (auto simp: os_walk_spec_def clean_path_def simple_name_def ex_defs step_simps)
  from build_static_file_on_page_dir [OF h(1,2) ow h(3,4)] h ow show ?thesis by blast
qed


text \<open>C22. Liveness: the build completes, raising nothing, whenever the output
  directory is fresh under an existing parent, the six templates are files of
  the template directory, \<open>os.walk\<close> lists the static tree, no static file or
  directory sits where a page directory or page goes, names are plain and the
  output, template and static directories are disjoint.\<close>

theorem build_completes:
  assumes "wf_fs (fs w)" and "layout_ok b r walked"
    and "fs w (butlast (out b)) = Some Dir" and "\<not> is_file (fs w (out b))"
    and "\<forall>p. prefix (out b) p \<longrightarrow> p \<noteq> out b \<longrightarrow> fs w p = None"
    and "\<forall>t \<in> set template_names. is_file (fs w (templates b @ [t]))"
    and "fs w (templates b @ [''palette-rendered.html'']) \<noteq> Some Dir"
    and "os_walk_spec (fs w) (public b) walked" and "static_fits b r walked"
  shows "\<exists>w'. build x b r walked w = Inr w'"
proof -
  have "build x b r walked w = run x b (build_ops x b r walked) w"
    by (simp add: build_def build_ops_def run_passes)
  with build_ops_completes [OF assms] show ?thesis by simp
qed

theorem build_completes_witness:
  "wf_fs (fs ex_world) \<and> layout_ok ex_builder ex_repos [([], [''site.css''])] \<and>
   fs ex_world (butlast (out ex_builder)) = Some Dir \<and> \<not> is_file (fs ex_world (out ex_builder)) \<and>
   fs ex_world (templates ex_builder @ [''palette-rendered.html'']) \<noteq> Some Dir \<and>
   os_walk_spec (fs ex_world) (public ex_builder) [([], [''site.css''])] \<and>
   static_fits ex_builder ex_repos [([], [''site.css''])] \<and>
   (\<exists>w'. build ex_externals ex_builder ex_repos [([], [''site.css''])] ex_world = Inr w')"
proof -
  have h: "wf_fs (fs ex_world)" "layout_ok ex_builder ex_repos [([], [''site.css''])]"
    "fs ex_world (butlast (out ex_builder)) = Some Dir" "\<not> is_file (fs ex_world (out ex_builder))"
    "\<forall>t \<in> set template_names. is_file (fs ex_world (templates ex_builder @ [t]))"
    "fs ex_world (templates ex_builder @ [''palette-rendered.html'']) \<noteq> Some Dir"
    "static_fits ex_builder ex_repos [([], [''site.css''])]"
    by (simp_all add: wf_fs_def layout_ok_def clean_path_def simple_name_def parallel_def is_file_def
        template_names_def static_fits_def page_files_def page_dirs_def ex_defs step_simps)
  have fr: "\<forall>p. prefix (out ex_builder) p \<longrightarrow> p \<noteq> out ex_builder \<longrightarrow> fs ex_world p = None"
    by (auto simp: ex_defs step_simps prefix_def)
  have ow: "os_walk_spec (fs ex_world) (public ex_builder) [([], [''site.css''])]"
    by (auto simp: os_walk_spec_def clean_path_def simple_name_def ex_defs step_simps)
  from build_completes [OF h(1-4) fr h(5,6) ow h(7)] h fr ow show ?thesis by blast
qed


text \<open>The passes never write below \<open>public\<close>, so the walk of the static tree
  when \<open>copy_static\<close> starts is the walk of the file system the build started
  from.\<close>

lemma walk_after_pages:
  assumes lo: "layout_ok b r walked" and pre: "run x b (page_ops x b r) w = Inr w5"
  shows "walk_tree (fs w5) ents (public b) = walk_tree (fs w) ents (public b)"
proof (rule walk_tree_agree, intro allI impI)
  fix p assume "prefix (public b) p"
  have "\<forall>op \<in> set (page_ops x b r). op_ok op" using build_ops_ok [OF lo, where x = x] by (simp add: build_ops_split)
  moreover have "p \<notin> (\<Union>op \<in> set (page_ops x b r). set (writes op))"
    using build_ops_public [OF lo \<open>prefix (public b) p\<close>, where x = x] by (simp add: build_ops_split)
  ultimately show "fs w5 p = fs w p" using run_frame [OF pre] by blast
qed

lemma build_walk_split:
  "build_walk x b r ents w =
     (case run x b (page_ops x b r) w of
        Inl ew \<Rightarrow> Some (Inl ew)
      | Inr w5 \<Rightarrow> map_option (\<lambda>res. bindE res (\<lambda>w.
          Inr (say (''Done in '' @ show_seconds x (clock w - now b) @ '' seconds'') w))) (copy_static_os b ents w5))"
  by (simp add: build_walk_def passes_run)

text \<open>C24. Composition of the build with the code's static copy: the build
  whose \<open>copy_static\<close> walks the static tree when it starts returns, and equals
  the build over the walk's listing of the file system the build started from.
  The passes write only below the output root and into the template directory,
  both apart from \<open>public\<close>, and the walk reads only below \<open>public\<close>; so every
  property of \<open>build\<close> holds of the code's build with this listing.\<close>

theorem build_walk_eq:
  assumes lo: "layout_ok b r (rel_listing (public b) (walk_tree (fs w) ents (public b)))"
  shows "build_walk x b r ents w = Some (build x b r (rel_listing (public b) (walk_tree (fs w) ents (public b))) w)"
proof (cases "run x b (page_ops x b r) w")
  case (Inl ew)
  then show ?thesis by (simp add: build_walk_split build_split)
next
  case (Inr w5)
  have "copy_static_os b ents w5 =
      Some (copy_static b (rel_listing (public b) (walk_tree (fs w) ents (public b))) w5)"
    using copy_static_os_walked os_walk_stack [of "fs w5" ents "[public b]"] walk_after_pages [OF lo Inr] by simp
  with Inr show ?thesis by (simp add: build_walk_split build_split)
qed

theorem build_walk_eq_witness:
  "layout_ok ex_builder ex_repos [([], [''site.css''])] \<and>
   rel_listing (public ex_builder) (walk_tree (fs ex_world) ex_static_ents (public ex_builder)) = [([], [''site.css''])] \<and>
   build_walk ex_externals ex_builder ex_repos ex_static_ents ex_world =
     Some (build ex_externals ex_builder ex_repos [([], [''site.css''])] ex_world)"
proof -
  have lo: "layout_ok ex_builder ex_repos [([], [''site.css''])]"
    by (simp add: layout_ok_def clean_path_def simple_name_def parallel_def ex_defs)
  have wt: "rel_listing (public ex_builder) (walk_tree (fs ex_world) ex_static_ents (public ex_builder)) =
      [([], [''site.css''])]"
    by code_simp
  from build_walk_eq [of ex_builder ex_repos ex_world ex_static_ents ex_externals] lo wt show ?thesis by simp
qed

text \<open>C28. Liveness of the code's build: with the static tree listed by
  \<open>os.walk\<close> itself, the build returns and raises nothing under the conditions of
  C22, of which the contract on the listing is now a theorem: a well-formed file
  system with plainly named entries, all known to \<open>scandir\<close>, a static tree
  that is a directory and fits the pages, a fresh output directory, and the
  templates in place.\<close>

theorem build_walk_completes:
  assumes wf: "wf_fs (fs w)" and ents: "dom (fs w) \<subseteq> set ents" and names: "\<forall>p \<in> dom (fs w). clean_path p"
    and pub: "fs w (public b) = Some Dir"
    and lay: "layout_ok b r (rel_listing (public b) (walk_tree (fs w) ents (public b)))"
    and par: "fs w (butlast (out b)) = Some Dir" and nf: "\<not> is_file (fs w (out b))"
    and fresh: "\<forall>p. prefix (out b) p \<longrightarrow> p \<noteq> out b \<longrightarrow> fs w p = None"
    and tpl: "\<forall>t \<in> set template_names. is_file (fs w (templates b @ [t]))"
    and pal: "fs w (templates b @ [''palette-rendered.html'']) \<noteq> Some Dir"
    and fits: "static_fits b r (rel_listing (public b) (walk_tree (fs w) ents (public b)))"
  shows "\<exists>w'. build_walk x b r ents w = Some (Inr w')"
proof -
  let ?L = "rel_listing (public b) (walk_tree (fs w) ents (public b))"
  have ow: "os_walk_spec (fs w) (public b) ?L" by (rule walk_tree_meets_spec [OF wf ents names pub])
  from build_ops_completes [OF wf lay par nf fresh tpl pal ow fits, of x]
  obtain w' where "run x b (build_ops x b r ?L) w = Inr w'" by blast
  then obtain w5 w6 where pre: "run x b (page_ops x b r) w = Inr w5" and st: "copy_static b ?L w5 = Inr w6"
    by (auto simp: build_ops_split run_append run_static bindE_eq_Inr_iff)
  have "copy_static_os b ents w5 = Some (copy_static b ?L w5)"
    using copy_static_os_walked os_walk_stack [of "fs w5" ents "[public b]"] walk_after_pages [OF lay pre] by simp
  with pre st show ?thesis by (simp add: build_walk_split)
qed

theorem build_walk_completes_witness:
  "wf_fs (fs ex_world) \<and> dom (fs ex_world) \<subseteq> set ex_static_ents \<and> fs ex_world (public ex_builder) = Some Dir \<and>
   rel_listing (public ex_builder) (walk_tree (fs ex_world) ex_static_ents (public ex_builder)) = [([], [''site.css''])] \<and>
   layout_ok ex_builder ex_repos [([], [''site.css''])] \<and>
   fs ex_world (butlast (out ex_builder)) = Some Dir \<and> \<not> is_file (fs ex_world (out ex_builder)) \<and>
   fs ex_world (templates ex_builder @ [''palette-rendered.html'']) \<noteq> Some Dir \<and>
   static_fits ex_builder ex_repos [([], [''site.css''])] \<and>
   (\<exists>w'. build_walk ex_externals ex_builder ex_repos ex_static_ents ex_world = Some (Inr w'))"
proof -
  have h: "wf_fs (fs ex_world)" "dom (fs ex_world) \<subseteq> set ex_static_ents"
    "\<forall>p \<in> dom (fs ex_world). clean_path p" "fs ex_world (public ex_builder) = Some Dir"
    "layout_ok ex_builder ex_repos [([], [''site.css''])]"
    "fs ex_world (butlast (out ex_builder)) = Some Dir" "\<not> is_file (fs ex_world (out ex_builder))"
    "\<forall>t \<in> set template_names. is_file (fs ex_world (templates ex_builder @ [t]))"
    "fs ex_world (templates ex_builder @ [''palette-rendered.html'']) \<noteq> Some Dir"
    "static_fits ex_builder ex_repos [([], [''site.css''])]"
    by (simp_all add: wf_fs_def layout_ok_def clean_path_def simple_name_def parallel_def is_file_def
        template_names_def static_fits_def page_files_def page_dirs_def ex_static_ents_def ex_defs step_simps)
  have fr: "\<forall>p. prefix (out ex_builder) p \<longrightarrow> p \<noteq> out ex_builder \<longrightarrow> fs ex_world p = None"
    by (auto simp: ex_defs step_simps prefix_def)
  have wt: "rel_listing (public ex_builder) (walk_tree (fs ex_world) ex_static_ents (public ex_builder)) =
      [([], [''site.css''])]"
    by code_simp
  from build_walk_completes [OF h(1-4), of ex_repos, unfolded wt, OF h(5-7) fr h(8,9) h(10), of ex_externals]
  have "\<exists>w'. build_walk ex_externals ex_builder ex_repos ex_static_ents ex_world = Some (Inr w')" .
  with h wt show ?thesis by blast
qed

end
